theory Spec2Isabelle
  imports Complex_Main
begin

section \<open>Python values: errors, warnings, ordered dictionaries\<close>

text \<open>
  The sources are Python on top of numpy and torch. Floating-point numbers are idealised
  as real and complex numbers (no rounding, no overflow); the non-finite results that the
  code can produce by a division by zero, a logarithm or a power are kept as values of
  their own (type \<open>fval\<close>, further down). Every \<^verbatim>\<open>raise\<close>, failed
  \<^verbatim>\<open>assert\<close> and failing library call is a value \<open>Inl e\<close> of a sum type.
\<close>

datatype error =
  Exception | AssertionError | IndexError | KeyError | OverflowError | RuntimeError

datatype warning =
  Odd_sized_image | Order_truncated | Twidth_reset

definition ebind :: "error + 'a \<Rightarrow> ('a \<Rightarrow> error + 'b) \<Rightarrow> error + 'b" where
  "ebind m f = (case m of Inl e \<Rightarrow> Inl e | Inr v \<Rightarrow> f v)"

fun sequence :: "(error + 'a) list \<Rightarrow> error + 'a list" where
  "sequence [] = Inr []"
| "sequence (m # ms) = ebind m (\<lambda>v. ebind (sequence ms) (\<lambda>vs. Inr (v # vs)))"

definition nth_py :: "'a list \<Rightarrow> nat \<Rightarrow> error + 'a" where
  "nth_py xs i = (if i < length xs then Inr (xs ! i) else Inl IndexError)"

text \<open>An \<^verbatim>\<open>OrderedDict\<close> (and a plain \<^verbatim>\<open>dict\<close>, which keeps insertion order
  too) is an association list: assigning to a key that is present replaces its value in
  place, assigning to a new key appends it.\<close>

type_synonym ('k, 'v) odict = "('k \<times> 'v) list"

definition od_keys :: "('k, 'v) odict \<Rightarrow> 'k list" where
  "od_keys d = map fst d"

definition od_get :: "('k, 'v) odict \<Rightarrow> 'k \<Rightarrow> error + 'v" where
  "od_get d k = (case map_of d k of None \<Rightarrow> Inl KeyError | Some v \<Rightarrow> Inr v)"

definition od_set :: "'k \<Rightarrow> 'v \<Rightarrow> ('k, 'v) odict \<Rightarrow> ('k, 'v) odict" where
  "od_set k v d =
     (if k \<in> set (od_keys d) then map (\<lambda>(k', v'). if k' = k then (k', v) else (k', v')) d
      else d @ [(k, v)])"

section \<open>Tensors\<close>

text \<open>
  A plane is a matrix given by its rows. A four-dimensional tensor (batch, channel, height,
  width) is a list of batches, each a list of channel planes, tagged with its dtype: a
  \<open>Float\<close> tensor holds real numbers (written as complex numbers with imaginary part 0),
  a \<open>Cfloat\<close> tensor complex numbers.
\<close>

type_synonym 'a plane = "'a list list"

datatype dtype = Float | Cfloat

datatype tensor = Tensor (dtype_of: dtype) (dat: "complex plane list list")

definition width_of :: "'a plane \<Rightarrow> nat" where
  "width_of X = (case X of [] \<Rightarrow> 0 | r # _ \<Rightarrow> length r)"

definition shape2 :: "'a plane \<Rightarrow> nat \<times> nat" where
  "shape2 X = (length X, width_of X)"

definition rect :: "nat \<times> nat \<Rightarrow> 'a plane \<Rightarrow> bool" where
  "rect s X \<longleftrightarrow> length X = fst s \<and> list_all (\<lambda>r. length r = snd s) X"

definition has_shape :: "nat \<times> nat \<times> nat \<times> nat \<Rightarrow> tensor \<Rightarrow> bool" where
  "has_shape s t \<longleftrightarrow>
     (case s of (B, C, H, W) \<Rightarrow>
        length (dat t) = B \<and> list_all (\<lambda>b. length b = C \<and> list_all (rect (H, W)) b) (dat t))"

text \<open>\<^verbatim>\<open>t.shape[-2:]\<close>, read off the first plane.\<close>

definition spatial :: "tensor \<Rightarrow> nat \<times> nat" where
  "spatial t = (case dat t of (X # _) # _ \<Rightarrow> shape2 X | _ \<Rightarrow> (0, 0))"

definition tmap :: "(complex plane \<Rightarrow> complex plane) \<Rightarrow> complex plane list list \<Rightarrow> complex plane list list" where
  "tmap f d = map (map f) d"

definition pmap :: "('a \<Rightarrow> 'b) \<Rightarrow> 'a plane \<Rightarrow> 'b plane" where
  "pmap f X = map (map f) X"

subsection \<open>Slicing\<close>

text \<open>\<^verbatim>\<open>X[a0:b0, a1:b1]\<close> with non-negative bounds; Python clips the bounds to the size.\<close>

definition crop :: "nat \<times> nat \<Rightarrow> nat \<times> nat \<Rightarrow> 'a plane \<Rightarrow> 'a plane" where
  "crop lostart loend X = map (\<lambda>r. drop (snd lostart) (take (snd loend) r)) (drop (fst lostart) (take (fst loend) X))"

subsection \<open>Broadcasting\<close>

text \<open>
  torch combines two tensors dimension by dimension: sizes must be equal, or one of them
  is 1 and that operand is repeated; anything else is a \<^verbatim>\<open>RuntimeError\<close>.
\<close>

definition bzip :: "('a \<Rightarrow> 'b \<Rightarrow> error + 'c) \<Rightarrow> 'a list \<Rightarrow> 'b list \<Rightarrow> error + 'c list" where
  "bzip f xs ys =
     (if length xs = length ys then sequence (map2 f xs ys)
      else if length xs = 1 then sequence (map (f (hd xs)) ys)
      else if length ys = 1 then sequence (map (\<lambda>x. f x (hd ys)) xs)
      else Inl RuntimeError)"

definition bplane :: "('a \<Rightarrow> 'b \<Rightarrow> 'c) \<Rightarrow> 'a plane \<Rightarrow> 'b plane \<Rightarrow> error + 'c plane" where
  "bplane f X Y = bzip (bzip (\<lambda>a b. Inr (f a b))) X Y"

text \<open>A tensor times a mask of shape \<open>(1, h, w)\<close>: the mask meets every plane.\<close>

definition mul_mask :: "tensor \<Rightarrow> real plane \<Rightarrow> error + tensor" where
  "mul_mask t M =
     ebind (sequence (map (\<lambda>b. sequence (map (\<lambda>X. bplane (\<lambda>z a. z * of_real a) X M) b)) (dat t)))
       (\<lambda>d. Inr (Tensor (dtype_of t) d))"

definition promote :: "dtype \<Rightarrow> dtype \<Rightarrow> dtype" where
  "promote a b = (if a = Cfloat \<or> b = Cfloat then Cfloat else Float)"

definition tadd :: "tensor \<Rightarrow> tensor \<Rightarrow> error + tensor" where
  "tadd s t =
     ebind (bzip (bzip (bplane (\<lambda>a b. a + b))) (dat s) (dat t))
       (\<lambda>d. Inr (Tensor (promote (dtype_of s) (dtype_of t)) d))"

text \<open>A complex scalar times a tensor gives a complex tensor.\<close>

definition scale_c :: "complex \<Rightarrow> tensor \<Rightarrow> tensor" where
  "scale_c c t = Tensor Cfloat (tmap (pmap (\<lambda>z. c * z)) (dat t))"

text \<open>A real scalar times (or dividing) a tensor keeps the dtype.\<close>

definition scale_r :: "real \<Rightarrow> tensor \<Rightarrow> tensor" where
  "scale_r c t = Tensor (dtype_of t) (tmap (pmap (\<lambda>z. of_real c * z)) (dat t))"

definition real_part :: "tensor \<Rightarrow> tensor" where
  "real_part t = Tensor Float (tmap (pmap (\<lambda>z. of_real (Re z))) (dat t))"

definition zeros_like :: "tensor \<Rightarrow> tensor" where
  "zeros_like t = Tensor (dtype_of t) (tmap (pmap (\<lambda>z. 0)) (dat t))"

definition crop4 :: "nat \<times> nat \<Rightarrow> nat \<times> nat \<Rightarrow> tensor \<Rightarrow> tensor" where
  "crop4 lostart loend t = Tensor (dtype_of t) (tmap (crop lostart loend) (dat t))"

subsection \<open>The discrete Fourier transform of torch.fft\<close>

datatype fft_norm = Ortho | Backward

definition norm_forward :: "fft_norm \<Rightarrow> nat \<Rightarrow> real" where
  "norm_forward nrm n = (case nrm of Backward \<Rightarrow> 1 | Ortho \<Rightarrow> 1 / sqrt (real n))"

definition norm_inverse :: "fft_norm \<Rightarrow> nat \<Rightarrow> real" where
  "norm_inverse nrm n = (case nrm of Backward \<Rightarrow> 1 / real n | Ortho \<Rightarrow> 1 / sqrt (real n))"

definition dft_sum :: "real \<Rightarrow> complex plane \<Rightarrow> nat \<Rightarrow> nat \<Rightarrow> complex" where
  "dft_sum sg X u v =
     (let H = length X; W = width_of X in
      (\<Sum>m<H. \<Sum>n<W. X ! m ! n *
         cis (sg * 2 * pi * (real u * real m / real H + real v * real n / real W))))"

definition fft2_plane :: "fft_norm \<Rightarrow> complex plane \<Rightarrow> complex plane" where
  "fft2_plane nrm X =
     (let H = length X; W = width_of X in
      map (\<lambda>u. map (\<lambda>v. of_real (norm_forward nrm (H * W)) * dft_sum (- 1) X u v) [0..<W]) [0..<H])"

definition ifft2_plane :: "fft_norm \<Rightarrow> complex plane \<Rightarrow> complex plane" where
  "ifft2_plane nrm X =
     (let H = length X; W = width_of X in
      map (\<lambda>u. map (\<lambda>v. of_real (norm_inverse nrm (H * W)) * dft_sum 1 X u v) [0..<W]) [0..<H])"

definition fft2 :: "fft_norm \<Rightarrow> tensor \<Rightarrow> tensor" where
  "fft2 nrm t = Tensor Cfloat (tmap (fft2_plane nrm) (dat t))"

definition ifft2 :: "fft_norm \<Rightarrow> tensor \<Rightarrow> tensor" where
  "ifft2 nrm t = Tensor Cfloat (tmap (ifft2_plane nrm) (dat t))"

text \<open>\<^verbatim>\<open>fftshift\<close> and \<^verbatim>\<open>ifftshift\<close> are called without \<^verbatim>\<open>dim\<close>, so they roll
  all four dimensions, by \<open>n div 2\<close> forwards and backwards.\<close>

definition fftshift1 :: "'a list \<Rightarrow> 'a list" where
  "fftshift1 xs = (let k = length xs - length xs div 2 in drop k xs @ take k xs)"

definition ifftshift1 :: "'a list \<Rightarrow> 'a list" where
  "ifftshift1 xs = (let k = length xs div 2 in drop k xs @ take k xs)"

definition fftshift :: "tensor \<Rightarrow> tensor" where
  "fftshift t =
     Tensor (dtype_of t) (fftshift1 (map (\<lambda>b. fftshift1 (map (\<lambda>X. fftshift1 (map fftshift1 X)) b)) (dat t)))"

definition ifftshift :: "tensor \<Rightarrow> tensor" where
  "ifftshift t =
     Tensor (dtype_of t) (ifftshift1 (map (\<lambda>b. ifftshift1 (map (\<lambda>X. ifftshift1 (map ifftshift1 X)) b)) (dat t)))"

section \<open>The steerable pyramid: construction\<close>

text \<open>Keys of the coefficient dictionary, and the entries of \<^verbatim>\<open>scales\<close> and
  \<^verbatim>\<open>levels\<close> lists (integers and the two residual names).\<close>

datatype key = Residual_highpass | Band nat nat | Residual_lowpass

datatype level = Resid_highpass | Level int | Resid_lowpass

datatype height = Auto | Height int

record pyramid =
  image_shape :: "nat \<times> nat"
  order :: int
  num_scales :: int
  num_orientations :: nat
  twidth :: int
  is_complex :: bool
  downsample :: bool
  fft_norm :: fft_norm
  lo0mask :: "real plane"
  hi0mask :: "real plane"
  himasks :: "real plane list"
  lomasks :: "real plane list"
  anglemasks :: "real plane list list"
  anglemasks_recon :: "real plane list list"
  loindices :: "((nat \<times> nat) \<times> (nat \<times> nat)) list"
  scales :: "level list"
  pyr_size :: "(key, nat \<times> nat) odict"

subsection \<open>The lookup tables and the frequency grids\<close>

text \<open>
  \<^verbatim>\<open>rcosFn\<close> and \<^verbatim>\<open>pointOp\<close> live in \<^verbatim>\<open>tools/signal.py\<close>, which is not among the
  sources. The raised-cosine table and the interpolation of a table at one point are
  parameters of the construction.
\<close>

record signal_tools =
  rcosFn :: "real \<Rightarrow> real \<Rightarrow> real list \<times> real list"
  np_interp :: "real list \<Rightarrow> real list \<Rightarrow> real \<Rightarrow> real"

text \<open>Modelled from the spec: \<^verbatim>\<open>pointOp(im, Y, X)\<close> is the pointwise interpolation of the
  table \<open>Y\<close> over \<open>X\<close> onto the grid \<open>im\<close>; the result has the shape of the grid.\<close>

definition pointOp :: "signal_tools \<Rightarrow> real plane \<Rightarrow> real list \<Rightarrow> real list \<Rightarrow> real plane" where
  "pointOp tools im Y X = pmap (np_interp tools X Y) im"

text \<open>\<^verbatim>\<open>np.linspace(-1, 1, n+1)[:-1]\<close>\<close>

definition ramp :: "nat \<Rightarrow> real list" where
  "ramp n = map (\<lambda>k. - 1 + 2 * real k / real n) [0..<n]"

definition arctan2 :: "real \<Rightarrow> real \<Rightarrow> real" where
  "arctan2 y x = Arg (Complex x y)"

text \<open>\<^verbatim>\<open>np.ceil((d + 0.5) / 2)\<close> and \<^verbatim>\<open>np.ceil((d - 0.5) / 2)\<close>\<close>

definition ceil_half_up :: "nat \<Rightarrow> nat" where
  "ceil_half_up d = nat \<lceil>(real d + 1 / 2) / 2\<rceil>"

definition ceil_half_down :: "nat \<Rightarrow> nat" where
  "ceil_half_down d = nat \<lceil>(real d - 1 / 2) / 2\<rceil>"

definition angle_grid :: "nat \<times> nat \<Rightarrow> real plane" where
  "angle_grid dims = map (\<lambda>y. map (\<lambda>x. arctan2 y x) (ramp (snd dims))) (ramp (fst dims))"

text \<open>The radius grid; its centre entry is overwritten by its left neighbour (index
  \<open>ctr - 2\<close>, which Python reads from the end when it is \<open>-1\<close>) before the logarithm.\<close>

definition log_rad_grid :: "nat \<times> nat \<Rightarrow> real plane" where
  "log_rad_grid dims =
     (let rad = map (\<lambda>y. map (\<lambda>x. sqrt (x\<^sup>2 + y\<^sup>2)) (ramp (snd dims))) (ramp (fst dims));
          r0 = ceil_half_up (fst dims) - 1;
          c0 = ceil_half_up (snd dims) - 1;
          c1 = (if 2 \<le> ceil_half_up (snd dims) then ceil_half_up (snd dims) - 2 else snd dims - 1);
          rad' = rad[r0 := (rad ! r0)[c0 := rad ! r0 ! c1]]
      in pmap (log 2) rad')"

definition lutsize :: int where
  "lutsize = 1024"

definition Xcosn :: "real list" where
  "Xcosn = map (\<lambda>k. pi * real_of_int k / real_of_int lutsize) [- (2 * lutsize + 1)..lutsize + 1]"

text \<open>Python's \<^verbatim>\<open>%\<close> on floats takes the sign of the divisor.\<close>

definition fmod :: "real \<Rightarrow> real \<Rightarrow> real" where
  "fmod a b = a - b * of_int \<lfloor>a / b\<rfloor>"

definition alpha :: "real list" where
  "alpha = map (\<lambda>x. fmod (x + pi) (2 * pi) - pi) Xcosn"

definition angle_const :: "int \<Rightarrow> nat \<Rightarrow> real" where
  "angle_const ord n =
     2 ^ (2 * nat ord) * (fact (nat ord))\<^sup>2 / (real n * fact (2 * nat ord))"

definition Ycosn_forward :: "bool \<Rightarrow> int \<Rightarrow> nat \<Rightarrow> real list" where
  "Ycosn_forward cplx ord n =
     (if cplx then
        map2 (\<lambda>x a. 2 * sqrt (angle_const ord n) * cos x ^ nat ord * (if \<bar>a\<bar> < pi / 2 then 1 else 0))
          Xcosn alpha
      else map (\<lambda>x. sqrt (angle_const ord n) * cos x ^ nat ord) Xcosn)"

definition Ycosn_recon :: "bool \<Rightarrow> int \<Rightarrow> nat \<Rightarrow> real list" where
  "Ycosn_recon cplx ord n = map (\<lambda>x. sqrt (angle_const ord n) * cos x ^ nat ord) Xcosn"

subsection \<open>The masks of one scale after the other\<close>

text \<open>The crop of the low-pass band: \<^verbatim>\<open>lostart\<close> and \<^verbatim>\<open>loend\<close> for the current size.\<close>

definition lo_bounds1 :: "nat \<Rightarrow> nat \<times> nat" where
  "lo_bounds1 d =
     (let ctr = ceil_half_up d; lodims = ceil_half_down d; loctr = ceil_half_up lodims;
          lostart = ctr - loctr
      in (lostart, lostart + lodims))"

definition lo_bounds :: "nat \<times> nat \<Rightarrow> (nat \<times> nat) \<times> (nat \<times> nat)" where
  "lo_bounds dims =
     ((fst (lo_bounds1 (fst dims)), fst (lo_bounds1 (snd dims))),
      (snd (lo_bounds1 (fst dims)), snd (lo_bounds1 (snd dims))))"

record scale_tables =
  t_himask :: "real plane"
  t_anglemasks :: "real plane list"
  t_anglemasks_recon :: "real plane list"
  t_lomask :: "real plane"
  t_loindex :: "(nat \<times> nat) \<times> (nat \<times> nat)"

text \<open>
  One round of the loop \<^verbatim>\<open>for i in range(self.num_scales)\<close> of \<^verbatim>\<open>__init__\<close>, which
  carries the shifted abscissa \<open>Xrcos\<close> and the two grids; \<open>n\<close> counts the rounds left.
  The mock image of the source only supplies the current size, which is the size of the
  grids.
\<close>

fun gen_scales ::
  "signal_tools \<Rightarrow> real list \<Rightarrow> real list \<Rightarrow> bool \<Rightarrow> int \<Rightarrow> nat \<Rightarrow> bool \<Rightarrow> nat \<times> nat \<Rightarrow>
   nat \<Rightarrow> real list \<Rightarrow> real plane \<Rightarrow> real plane \<Rightarrow> scale_tables list" where
  "gen_scales tools Yrcos YIrcos cplx ord no ds dims 0 Xrcos log_rad angle = []"
| "gen_scales tools Yrcos YIrcos cplx ord no ds dims (Suc n) Xrcos log_rad angle =
     (let Xrcos' = map (\<lambda>x. x - log 2 2) Xrcos;
          himask = pointOp tools log_rad Yrcos Xrcos';
          am = map (\<lambda>b. pointOp tools angle (Ycosn_forward cplx ord no)
                 (map (\<lambda>x. x + pi * real b / real no) Xcosn)) [0..<no];
          amr = map (\<lambda>b. pointOp tools angle (Ycosn_recon cplx ord no)
                 (map (\<lambda>x. x + pi * real b / real no) Xcosn)) [0..<no]
      in if \<not> ds then
           \<lparr>t_himask = himask, t_anglemasks = am, t_anglemasks_recon = amr,
            t_lomask = pointOp tools log_rad YIrcos Xrcos', t_loindex = ((0, 0), dims)\<rparr>
           # gen_scales tools Yrcos YIrcos cplx ord no ds dims n Xrcos' log_rad angle
         else
           (let idx = lo_bounds (shape2 log_rad);
                log_rad' = crop (fst idx) (snd idx) log_rad;
                angle' = crop (fst idx) (snd idx) angle
            in \<lparr>t_himask = himask, t_anglemasks = am, t_anglemasks_recon = amr,
                 t_lomask = pointOp tools log_rad' YIrcos Xrcos', t_loindex = idx\<rparr>
               # gen_scales tools Yrcos YIrcos cplx ord no ds dims n Xrcos' log_rad' angle'))"

subsection \<open>\<^verbatim>\<open>Steerable_Pyramid_Freq.__init__\<close>\<close>

text \<open>
  \<^verbatim>\<open>max_ht = np.floor(np.log2(min(H, W))) - 2\<close>; for a side of length 0 numpy's
  logarithm is \<open>-\<infinity>\<close>, here \<open>None\<close>. (The floor of the floating-point logarithm is the
  floor of the real one for every size below \<open>2^48\<close>.)
\<close>

definition max_ht :: "nat \<times> nat \<Rightarrow> int option" where
  "max_ht shp =
     (if min (fst shp) (snd shp) = 0 then None
      else Some (\<lfloor>log 2 (real (min (fst shp) (snd shp)))\<rfloor> - 2))"

text \<open>\<^verbatim>\<open>height == 'auto'\<close> takes \<open>int(max_ht)\<close>, which overflows on \<open>-\<infinity>\<close>; a number
  greater than \<open>max_ht\<close> (every number is greater than \<open>-\<infinity>\<close>) is refused.\<close>

definition choose_num_scales :: "nat \<times> nat \<Rightarrow> height \<Rightarrow> error + int" where
  "choose_num_scales shp h =
     (case h of
        Auto \<Rightarrow> (case max_ht shp of None \<Rightarrow> Inl OverflowError | Some m \<Rightarrow> Inr m)
      | Height k \<Rightarrow>
          (case max_ht shp of None \<Rightarrow> Inl Exception
           | Some m \<Rightarrow> if k > m then Inl Exception else Inr k))"

definition clamp_order :: "int \<Rightarrow> int" where
  "clamp_order ord = (if ord > 15 \<or> ord \<le> 0 then min (max ord 1) 15 else ord)"

definition clamp_twidth :: "int \<Rightarrow> int" where
  "clamp_twidth tw = (if tw \<le> 0 then 1 else tw)"

definition init_warnings :: "nat \<times> nat \<Rightarrow> int \<Rightarrow> int \<Rightarrow> warning list" where
  "init_warnings shp ord tw =
     (if fst shp mod 2 \<noteq> 0 \<or> snd shp mod 2 \<noteq> 0 then [Odd_sized_image] else []) @
     (if ord > 15 \<or> ord \<le> 0 then [Order_truncated] else []) @
     (if tw \<le> 0 then [Twidth_reset] else [])"

text \<open>Everything after the checks: the tables, the two top-level masks, the per-scale masks.\<close>

definition build :: "signal_tools \<Rightarrow> nat \<times> nat \<Rightarrow> int \<Rightarrow> int \<Rightarrow> int \<Rightarrow> bool \<Rightarrow> bool \<Rightarrow> bool \<Rightarrow> pyramid" where
  "build tools shp ns ord tw cplx ds tight =
     (let no = nat (ord + 1);
          angle = angle_grid shp;
          log_rad = log_rad_grid shp;
          rc = rcosFn tools (real_of_int tw) (- real_of_int tw / 2);
          Xrcos = fst rc;
          Yrcos = map sqrt (snd rc);
          YIrcos = map (\<lambda>y. sqrt (1 - y\<^sup>2)) Yrcos;
          tabs = gen_scales tools Yrcos YIrcos cplx ord no ds shp (nat ns) Xrcos log_rad angle
      in \<lparr>image_shape = shp, order = ord, num_scales = ns, num_orientations = no, twidth = tw,
          is_complex = cplx, downsample = ds,
          fft_norm = (if tight then Ortho else Backward),
          lo0mask = pointOp tools log_rad YIrcos Xrcos,
          hi0mask = pointOp tools log_rad Yrcos Xrcos,
          himasks = map t_himask tabs, lomasks = map t_lomask tabs,
          anglemasks = map t_anglemasks tabs, anglemasks_recon = map t_anglemasks_recon tabs,
          loindices = map t_loindex tabs,
          scales = [Resid_lowpass] @ rev (map (\<lambda>i. Level (int i)) [0..<nat ns]) @ [Resid_highpass],
          pyr_size = []\<rparr>)"

text \<open>The constructor returns the pyramid together with the warnings it issued.\<close>

definition init ::
  "signal_tools \<Rightarrow> nat \<times> nat \<Rightarrow> height \<Rightarrow> int \<Rightarrow> int \<Rightarrow> bool \<Rightarrow> bool \<Rightarrow> bool \<Rightarrow>
   error + pyramid \<times> warning list" where
  "init tools shp h ord tw cplx ds tight =
     ebind (choose_num_scales shp h)
       (\<lambda>ns. Inr (build tools shp ns (clamp_order ord) (clamp_twidth tw) cplx ds tight,
                  init_warnings shp ord tw))"

section \<open>The steerable pyramid: \<^verbatim>\<open>forward\<close>\<close>

type_synonym coeffs = "(key, tensor) odict"

type_synonym sizes = "(key, nat \<times> nat) odict"

text \<open>\<^verbatim>\<open>t / np.sqrt(2)\<close> and \<^verbatim>\<open>t * np.sqrt(2)\<close> go through \<open>scale_r\<close>.\<close>

definition store_band :: "pyramid \<Rightarrow> tensor \<Rightarrow> tensor" where
  "store_band p band =
     (if \<not> is_complex p then real_part band
      else if fft_norm p = Ortho then scale_r (1 / sqrt 2) band
      else band)"

text \<open>The loop \<^verbatim>\<open>for b in range(self.num_orientations)\<close> of one scale \<open>i\<close>.\<close>

fun forward_bands ::
  "pyramid \<Rightarrow> tensor \<Rightarrow> real plane \<Rightarrow> nat \<Rightarrow> nat list \<Rightarrow> coeffs \<times> sizes \<Rightarrow> error + coeffs \<times> sizes" where
  "forward_bands p lodft himask i [] cs = Inr cs"
| "forward_bands p lodft himask i (b # bs) cs =
     ebind (nth_py (anglemasks p) i) (\<lambda>ams.
     ebind (nth_py ams b) (\<lambda>anglemask.
     ebind (mul_mask (scale_c (power_int (- \<i>) (order p)) lodft) anglemask) (\<lambda>t.
     ebind (mul_mask t himask) (\<lambda>banddft.
       (let band = store_band p (ifft2 (fft_norm p) (ifftshift banddft))
        in forward_bands p lodft himask i bs
             (od_set (Band i b) band (fst cs), od_set (Band i b) (spatial band) (snd cs)))))))"

text \<open>How the running low-pass spectrum moves on to the next scale.\<close>

definition next_lodft :: "pyramid \<Rightarrow> nat \<Rightarrow> tensor \<Rightarrow> error + tensor" where
  "next_lodft p i lodft =
     (if \<not> downsample p then
        ebind (nth_py (lomasks p) i) (\<lambda>lomask. mul_mask lodft lomask)
      else
        ebind (nth_py (loindices p) i) (\<lambda>idx.
        ebind (nth_py (lomasks p) i) (\<lambda>lomask.
          mul_mask (crop4 (fst idx) (snd idx) lodft) lomask)))"

text \<open>The loop \<^verbatim>\<open>for i in range(self.num_scales)\<close>; the state is the running low-pass
  spectrum, the coefficients and the size table. (The copies of the two grids that the
  source crops along the way are never read.)\<close>

fun forward_scales ::
  "pyramid \<Rightarrow> level list \<Rightarrow> nat list \<Rightarrow> tensor \<times> coeffs \<times> sizes \<Rightarrow> error + tensor \<times> coeffs \<times> sizes" where
  "forward_scales p scs [] st = Inr st"
| "forward_scales p scs (i # is) st =
     ebind (if Level (int i) \<in> set scs then
              ebind (nth_py (himasks p) i) (\<lambda>himask.
                forward_bands p (fst st) himask i [0..<num_orientations p] (snd st))
            else Inr (snd st)) (\<lambda>cs.
     ebind (next_lodft p i (fst st)) (\<lambda>lodft.
       forward_scales p scs is (lodft, cs)))"

definition scale_ints :: "level list \<Rightarrow> int list" where
  "scale_ints scs = concat (map (\<lambda>s. case s of Level i \<Rightarrow> [i] | _ \<Rightarrow> []) scs)"

text \<open>
  \<^verbatim>\<open>forward(x, scales)\<close> returns the coefficients and leaves the size table updated in the
  pyramid. The argument is a list and \<open>x\<close> has four dimensions by their types.
\<close>

definition forward :: "pyramid \<Rightarrow> tensor \<Rightarrow> level list \<Rightarrow> error + coeffs \<times> pyramid" where
  "forward p x scales_arg =
     (let scs = (if scales_arg = [] then scales p else scales_arg) in
      if scale_ints scs \<noteq> [] \<and>
         \<not> (Max (set (scale_ints scs)) < num_scales p \<and> 0 \<le> Min (set (scale_ints scs)))
      then Inl AssertionError
      else
        (let imdft = fftshift (fft2 (fft_norm p) x) in
         ebind (if Resid_highpass \<in> set scs then
                  ebind (mul_mask imdft (hi0mask p)) (\<lambda>hi0dft.
                    (let hi0 = real_part (ifft2 (fft_norm p) (ifftshift hi0dft))
                     in Inr (od_set Residual_highpass hi0 [],
                             od_set Residual_highpass (spatial hi0) (pyr_size p))))
                else Inr ([], pyr_size p)) (\<lambda>cs.
         ebind (mul_mask imdft (lo0mask p)) (\<lambda>lodft.
         ebind (forward_scales p scs [0..<nat (num_scales p)] (lodft, cs)) (\<lambda>st.
           (let cs' = (if Resid_lowpass \<in> set scs then
                         (let lo0 = real_part (ifft2 (fft_norm p) (ifftshift (fst st)))
                          in (od_set Residual_lowpass lo0 (fst (snd st)),
                              od_set Residual_lowpass (spatial lo0) (snd (snd st))))
                       else snd st)
            in Inr (fst cs', p\<lparr>pyr_size := snd cs'\<rparr>)))))))"

section \<open>The steerable pyramid: conversion to and from one tensor\<close>

definition is_residual :: "key \<Rightarrow> bool" where
  "is_residual k \<longleftrightarrow> (case k of Band i b \<Rightarrow> False | _ \<Rightarrow> True)"

text \<open>
  \<^verbatim>\<open>torch.cat(ts, dim=1)\<close>: the list must not be empty, and the tensors must agree in
  every dimension but the channels. The result has the promoted dtype.
\<close>

definition cat1 :: "tensor list \<Rightarrow> error + tensor" where
  "cat1 ts =
     (if ts = [] then Inl RuntimeError
      else if list_all (\<lambda>t. length (dat t) = length (dat (hd ts)) \<and>
                 list_all (list_all (rect (spatial (hd ts)))) (dat t)) ts
      then Inr (Tensor (foldr promote (map dtype_of ts) Float)
             (map (\<lambda>b. concat (map (\<lambda>t. dat t ! b) ts)) [0..<length (dat (hd ts))]))
      else Inl RuntimeError)"

definition convert_pyr_to_tensor :: "pyramid \<Rightarrow> coeffs \<Rightarrow> error + tensor" where
  "convert_pyr_to_tensor p pyr_coeffs =
     (if downsample p then Inl AssertionError
      else
        (let coeff_list_resid = map snd (filter (\<lambda>kv. is_residual (fst kv)) pyr_coeffs);
             coeff_list = map snd (filter (\<lambda>kv. \<not> is_residual (fst kv)) pyr_coeffs)
         in if length coeff_list > 0 then
              ebind (cat1 coeff_list) (\<lambda>coeff_bands.
                if length coeff_list_resid = 1 then
                  ebind (cat1 coeff_list_resid) (\<lambda>coeff_resid. cat1 [coeff_resid, coeff_bands])
                else if length coeff_list_resid = 2 then
                  cat1 [coeff_list_resid ! 0, coeff_bands, coeff_list_resid ! 1]
                else Inr coeff_bands)
            else cat1 coeff_list_resid))"

text \<open>\<^verbatim>\<open>pyr_tensor[:, i, ...].unsqueeze(1)\<close>. The channel count of a tensor with an empty
  batch is not represented, so the index is checked against the batches that exist.\<close>

definition select_channel :: "tensor \<Rightarrow> nat \<Rightarrow> error + tensor" where
  "select_channel t i =
     (if list_all (\<lambda>b. i < length b) (dat t) then Inr (Tensor (dtype_of t) (map (\<lambda>b. [b ! i]) (dat t)))
      else Inl IndexError)"

fun tensor_to_pyr_loop :: "tensor \<Rightarrow> key list \<Rightarrow> nat \<Rightarrow> coeffs \<Rightarrow> error + coeffs" where
  "tensor_to_pyr_loop t [] i acc = Inr acc"
| "tensor_to_pyr_loop t (k # ks) i acc =
     ebind (select_channel t i) (\<lambda>v. tensor_to_pyr_loop t ks (Suc i) (od_set k v acc))"

definition convert_tensor_to_pyr :: "pyramid \<Rightarrow> tensor \<Rightarrow> error + coeffs" where
  "convert_tensor_to_pyr p pyr_tensor = tensor_to_pyr_loop pyr_tensor (od_keys (pyr_size p)) 0 []"

section \<open>The steerable pyramid: reconstruction\<close>

datatype levels_arg = All_levels | One_level level | Level_list "level list"

datatype bands_arg = All_bands | One_band int | Band_list "int list"

text \<open>(Strings of digits, which the source also accepts as level numbers, and other
  strings, which it drops, are not values of \<open>level\<close>.)\<close>

definition recon_levels_check :: "pyramid \<Rightarrow> levels_arg \<Rightarrow> error + level list" where
  "recon_levels_check p levels =
     ebind (case levels of
              All_levels \<Rightarrow>
                Inr ([Resid_highpass] @ map (\<lambda>i. Level (int i)) [0..<nat (num_scales p)] @ [Resid_lowpass])
            | _ \<Rightarrow>
                (let ls = (case levels of Level_list xs \<Rightarrow> xs | One_level l \<Rightarrow> [l] | All_levels \<Rightarrow> []);
                     levs_nums = scale_ints ls
                 in if \<not> list_all (\<lambda>i. 0 \<le> i) levs_nums then Inl AssertionError
                    else if \<not> list_all (\<lambda>i. i < num_scales p) levs_nums then Inl AssertionError
                    else Inr ((if Resid_highpass \<in> set ls then [Resid_highpass] else []) @
                              map Level (sort levs_nums) @
                              (if Resid_lowpass \<in> set ls then [Resid_lowpass] else []))))
       (\<lambda>lv.
          (let lv1 = (if Residual_lowpass \<notin> set (od_keys (pyr_size p)) \<and> Resid_lowpass \<in> set lv
                      then butlast lv else lv);
               lv2 = (if Residual_highpass \<notin> set (od_keys (pyr_size p)) \<and> Resid_highpass \<in> set lv1
                      then tl lv1 else lv1)
           in Inr lv2))"

definition recon_bands_check :: "pyramid \<Rightarrow> bands_arg \<Rightarrow> error + int list" where
  "recon_bands_check p bands =
     (case bands of
        All_bands \<Rightarrow> Inr (map int [0..<num_orientations p])
      | _ \<Rightarrow>
          (let bs = (case bands of Band_list xs \<Rightarrow> xs | One_band b \<Rightarrow> [b] | All_bands \<Rightarrow> [])
           in if \<not> list_all (\<lambda>b. 0 \<le> b) bs then Inl AssertionError
              else if \<not> list_all (\<lambda>b. b < int (num_orientations p)) bs then Inl AssertionError
              else Inr bs))"

definition recon_keys :: "pyramid \<Rightarrow> levels_arg \<Rightarrow> bands_arg \<Rightarrow> error + key list" where
  "recon_keys p levels bands =
     ebind (recon_levels_check p levels) (\<lambda>lv.
     ebind (recon_bands_check p bands) (\<lambda>bs.
       Inr (concat (map (\<lambda>l. case l of
                               Resid_highpass \<Rightarrow> [Residual_highpass]
                             | Resid_lowpass \<Rightarrow> [Residual_lowpass]
                             | Level i \<Rightarrow> map (\<lambda>b. Band (nat i) (nat b)) bs) lv))))"

subsection \<open>Writing into a slice\<close>

text \<open>
  \<^verbatim>\<open>resdft[:, :, a0:b0, a1:b1] = v\<close> copies \<open>v\<close>, repeated along dimensions where it
  has size 1, into the slice, and converts it to the dtype of the destination: a complex
  value written into a \<open>Float\<close> tensor loses its imaginary part.
\<close>

definition cast :: "dtype \<Rightarrow> complex \<Rightarrow> complex" where
  "cast dt z = (if dt = Float then of_real (Re z) else z)"

definition bto :: "('a \<Rightarrow> 'b \<Rightarrow> error + 'a) \<Rightarrow> 'a list \<Rightarrow> 'b list \<Rightarrow> error + 'a list" where
  "bto f ds vs =
     (if length vs = length ds then sequence (map2 f ds vs)
      else if length vs = 1 then sequence (map (\<lambda>d. f d (hd vs)) ds)
      else Inl RuntimeError)"

definition assign_row :: "nat \<Rightarrow> nat \<Rightarrow> dtype \<Rightarrow> complex list \<Rightarrow> complex list \<Rightarrow> error + complex list" where
  "assign_row a b dt drow vrow =
     ebind (bto (\<lambda>d v. Inr (cast dt v)) (drop a (take b drow)) vrow)
       (\<lambda>mid. Inr (take a drow @ mid @ drop (a + length mid) drow))"

definition assign_plane ::
  "(nat \<times> nat) \<times> (nat \<times> nat) \<Rightarrow> dtype \<Rightarrow> complex plane \<Rightarrow> complex plane \<Rightarrow> error + complex plane" where
  "assign_plane idx dt D V =
     ebind (bto (assign_row (snd (fst idx)) (snd (snd idx)) dt) (drop (fst (fst idx)) (take (fst (snd idx)) D)) V)
       (\<lambda>mid. Inr (take (fst (fst idx)) D @ mid @ drop (fst (fst idx) + length mid) D))"

definition assign_slice :: "tensor \<Rightarrow> (nat \<times> nat) \<times> (nat \<times> nat) \<Rightarrow> tensor \<Rightarrow> error + tensor" where
  "assign_slice dest idx v =
     ebind (bto (bto (assign_plane idx (dtype_of dest))) (dat dest) (dat v))
       (\<lambda>d. Inr (Tensor (dtype_of dest) d))"

subsection \<open>\<^verbatim>\<open>_recon_levels\<close>\<close>

definition load_band :: "pyramid \<Rightarrow> tensor \<Rightarrow> tensor" where
  "load_band p c =
     (if is_complex p \<and> fft_norm p = Ortho then scale_r (sqrt 2) c else c)"

text \<open>The loop over the orientations of one scale, summing into \<open>orientdft\<close>.\<close>

fun recon_bands ::
  "pyramid \<Rightarrow> coeffs \<Rightarrow> key list \<Rightarrow> real plane \<Rightarrow> nat \<Rightarrow> nat list \<Rightarrow> tensor \<Rightarrow> error + tensor" where
  "recon_bands p c keys himask scale [] orientdft = Inr orientdft"
| "recon_bands p c keys himask scale (b # bs) orientdft =
     (if Band scale b \<in> set keys then
        ebind (nth_py (anglemasks_recon p) scale) (\<lambda>ams.
        ebind (nth_py ams b) (\<lambda>anglemask.
        ebind (od_get c (Band scale b)) (\<lambda>cf.
          (let banddft = fftshift (fft2 (fft_norm p) (load_band p cf)) in
           ebind (mul_mask (scale_c (power_int \<i> (order p)) banddft) anglemask) (\<lambda>t.
           ebind (mul_mask t himask) (\<lambda>banddft'.
           ebind (tadd orientdft banddft') (\<lambda>orientdft'.
             recon_bands p c keys himask scale bs orientdft')))))))
      else recon_bands p c keys himask scale bs orientdft)"

text \<open>The recursion runs from \<open>scale\<close> up to \<open>num_scales\<close>; it stops with the
  \<^verbatim>\<open>IndexError\<close> of \<^verbatim>\<open>self._himasks[scale]\<close> where the list of masks ends before
  that (the test is written out once more in front, where the recursion needs it).\<close>

function recon_levels :: "pyramid \<Rightarrow> coeffs \<Rightarrow> key list \<Rightarrow> nat \<Rightarrow> error + tensor" where
  "recon_levels p c keys scale =
     (if int scale = num_scales p then
        ebind (od_get c Residual_lowpass) (\<lambda>lo.
          if Residual_lowpass \<in> set keys then Inr (fftshift (fft2 (fft_norm p) lo))
          else Inr (fft2 (fft_norm p) (zeros_like lo)))
      else if length (himasks p) \<le> scale then Inl IndexError
      else
        ebind (nth_py (himasks p) scale) (\<lambda>himask.
        ebind (od_get c (Band scale 0)) (\<lambda>c0.
        ebind (recon_bands p c keys himask scale [0..<num_orientations p] (zeros_like c0)) (\<lambda>orientdft.
        ebind (nth_py (loindices p) scale) (\<lambda>idx.
        ebind (nth_py (lomasks p) scale) (\<lambda>lomask.
        ebind (recon_levels p c keys (Suc scale)) (\<lambda>reslevdft.
        ebind (mul_mask reslevdft lomask) (\<lambda>v.
        ebind (assign_slice (zeros_like c0) idx v) (\<lambda>resdft.
          tadd resdft orientdft)))))))))"
  by pat_completeness auto
termination
  by (relation "measure (\<lambda>(p, c, keys, scale). length (himasks p) - scale)")
     auto

subsection \<open>\<^verbatim>\<open>recon_pyr\<close>\<close>

text \<open>The check that opens \<^verbatim>\<open>recon_pyr\<close>: one round per entry of \<^verbatim>\<open>self.scales\<close>.\<close>

fun check_all_scales :: "pyramid \<Rightarrow> coeffs \<Rightarrow> level list \<Rightarrow> error + unit" where
  "check_all_scales p c [] = Inr ()"
| "check_all_scales p c (Level i # ss) =
     (if list_all (\<lambda>b. 0 \<le> i \<and> Band (nat i) b \<in> set (od_keys c)) [0..<num_orientations p]
      then check_all_scales p c ss else Inl Exception)"
| "check_all_scales p c (Resid_highpass # ss) =
     (if Residual_highpass \<in> set (od_keys c) then check_all_scales p c ss else Inl Exception)"
| "check_all_scales p c (Resid_lowpass # ss) =
     (if Residual_lowpass \<in> set (od_keys c) then check_all_scales p c ss else Inl Exception)"

text \<open>(The argument \<^verbatim>\<open>twidth\<close> only triggers a warning when it is not positive; it is
  not used afterwards.)\<close>

definition recon_pyr :: "pyramid \<Rightarrow> coeffs \<Rightarrow> levels_arg \<Rightarrow> bands_arg \<Rightarrow> int \<Rightarrow> error + tensor" where
  "recon_pyr p pyr_coeffs levels bands tw =
     ebind (check_all_scales p pyr_coeffs (scales p)) (\<lambda>_.
     ebind (recon_keys p levels bands) (\<lambda>keys.
     ebind (recon_levels p pyr_coeffs keys 0) (\<lambda>recondft.
     ebind (if Residual_highpass \<in> set keys then
              ebind (od_get pyr_coeffs Residual_highpass) (\<lambda>hi.
              ebind (mul_mask recondft (lo0mask p)) (\<lambda>lo_part.
              ebind (mul_mask (fftshift (fft2 (fft_norm p) hi)) (hi0mask p)) (\<lambda>hi_part.
                tadd lo_part hi_part)))
            else mul_mask recondft (lo0mask p)) (\<lambda>outdft.
       (let reconstruction = ifft2 (fft_norm p) (ifftshift outdft)
        in Inr (if is_complex p then real_part reconstruction else reconstruction))))))"

section \<open>Numbers that need not be finite\<close>

text \<open>
  Where the metrics divide, take logarithms or raise to a power, the result of the
  floating-point operation may be an infinity or NaN. These operations follow IEEE 754
  on the special values (torch and numpy do); on finite values they are exact.
\<close>

datatype fval = Fin real | PInf | NInf | NaN

fun fadd :: "fval \<Rightarrow> fval \<Rightarrow> fval" where
  "fadd (Fin a) (Fin b) = Fin (a + b)"
| "fadd NaN _ = NaN"
| "fadd _ NaN = NaN"
| "fadd PInf NInf = NaN"
| "fadd NInf PInf = NaN"
| "fadd PInf _ = PInf"
| "fadd _ PInf = PInf"
| "fadd NInf _ = NInf"
| "fadd _ NInf = NInf"

definition inf_signed :: "real \<Rightarrow> fval" where
  "inf_signed s = (if s > 0 then PInf else if s < 0 then NInf else NaN)"

fun fmul :: "fval \<Rightarrow> fval \<Rightarrow> fval" where
  "fmul (Fin a) (Fin b) = Fin (a * b)"
| "fmul NaN _ = NaN"
| "fmul _ NaN = NaN"
| "fmul PInf (Fin b) = inf_signed b"
| "fmul (Fin a) PInf = inf_signed a"
| "fmul NInf (Fin b) = inf_signed (- b)"
| "fmul (Fin a) NInf = inf_signed (- a)"
| "fmul PInf PInf = PInf"
| "fmul NInf NInf = PInf"
| "fmul PInf NInf = NInf"
| "fmul NInf PInf = NInf"

fun fdiv :: "fval \<Rightarrow> fval \<Rightarrow> fval" where
  "fdiv (Fin a) (Fin b) = (if b = 0 then inf_signed a else Fin (a / b))"
| "fdiv NaN _ = NaN"
| "fdiv _ NaN = NaN"
| "fdiv (Fin a) PInf = Fin 0"
| "fdiv (Fin a) NInf = Fin 0"
| "fdiv PInf (Fin b) = (if b < 0 then NInf else PInf)"
| "fdiv NInf (Fin b) = (if b < 0 then PInf else NInf)"
| "fdiv PInf PInf = NaN"
| "fdiv PInf NInf = NaN"
| "fdiv NInf PInf = NaN"
| "fdiv NInf NInf = NaN"

fun flog :: "fval \<Rightarrow> fval" where
  "flog (Fin a) = (if a > 0 then Fin (ln a) else if a = 0 then NInf else NaN)"
| "flog PInf = PInf"
| "flog NInf = NaN"
| "flog NaN = NaN"

fun fsqrt :: "fval \<Rightarrow> fval" where
  "fsqrt (Fin a) = (if a \<ge> 0 then Fin (sqrt a) else NaN)"
| "fsqrt PInf = PInf"
| "fsqrt NInf = NaN"
| "fsqrt NaN = NaN"

text \<open>\<^verbatim>\<open>F.relu\<close>\<close>

fun relu :: "fval \<Rightarrow> fval" where
  "relu (Fin a) = Fin (max 0 a)"
| "relu PInf = PInf"
| "relu NInf = Fin 0"
| "relu NaN = NaN"

text \<open>\<^verbatim>\<open>x.pow(p)\<close> for a finite exponent \<open>p\<close>: anything to the power 0 is 1; a negative
  base has a power only for an integer exponent.\<close>

definition is_int :: "real \<Rightarrow> bool" where
  "is_int p \<longleftrightarrow> of_int \<lfloor>p\<rfloor> = p"

fun fpow :: "fval \<Rightarrow> real \<Rightarrow> fval" where
  "fpow (Fin x) p =
     (if p = 0 then Fin 1
      else if x > 0 then Fin (x powr p)
      else if x = 0 then (if p > 0 then Fin 0 else PInf)
      else if is_int p then Fin (power_int x \<lfloor>p\<rfloor>)
      else NaN)"
| "fpow PInf p = (if p = 0 then Fin 1 else if p > 0 then PInf else Fin 0)"
| "fpow NInf p =
     (if p = 0 then Fin 1
      else if p < 0 then Fin 0
      else if is_int p \<and> odd \<lfloor>p\<rfloor> then NInf else PInf)"
| "fpow NaN p = (if p = 0 then Fin 1 else NaN)"

definition fsum :: "fval list \<Rightarrow> fval" where
  "fsum vs = foldl fadd (Fin 0) vs"

text \<open>\<^verbatim>\<open>t.mean((-1, -2))\<close> and \<^verbatim>\<open>t.sum((-1, -2))\<close> of one plane; the mean of no
  entries is \<open>0 / 0\<close>.\<close>

definition fsum_plane :: "fval plane \<Rightarrow> fval" where
  "fsum_plane P = fsum (concat P)"

definition fmean_plane :: "fval plane \<Rightarrow> fval" where
  "fmean_plane P = fdiv (fsum_plane P) (Fin (real (length (concat P))))"

section \<open>SSIM and MS-SSIM\<close>

text \<open>The images of the metrics are real tensors (batch, channel, height, width).\<close>

type_synonym image = "real plane list list"

definition channels :: "image \<Rightarrow> nat" where
  "channels img = (case img of [] \<Rightarrow> 0 | b # _ \<Rightarrow> length b)"

definition spatial_r :: "image \<Rightarrow> nat \<times> nat" where
  "spatial_r img = (case img of (X # _) # _ \<Rightarrow> shape2 X | _ \<Rightarrow> (0, 0))"

definition numel :: "image \<Rightarrow> nat" where
  "numel img = length img * channels img * fst (spatial_r img) * snd (spatial_r img)"

definition is_image :: "nat \<times> nat \<times> nat \<times> nat \<Rightarrow> image \<Rightarrow> bool" where
  "is_image s img \<longleftrightarrow>
     (case s of (B, C, H, W) \<Rightarrow>
        length img = B \<and> list_all (\<lambda>b. length b = C \<and> list_all (rect (H, W)) b) img)"

text \<open>The three checks that \<^verbatim>\<open>_ssim_parts\<close>, \<^verbatim>\<open>nlpd\<close> and \<^verbatim>\<open>nspd\<close> share (the
  number of dimensions is 4 by the type).\<close>

definition check_images :: "image \<Rightarrow> image \<Rightarrow> error + unit" where
  "check_images img1 img2 =
     (if spatial_r img1 \<noteq> spatial_r img2 then Inl Exception
      else if length img1 \<noteq> length img2 \<and> length img1 \<noteq> 1 \<and> length img2 \<noteq> 1 then Inl Exception
      else if channels img1 \<noteq> channels img2 \<and> channels img1 \<noteq> 1 \<and> channels img2 \<noteq> 1 then Inl Exception
      else Inr ())"

text \<open>\<^verbatim>\<open>torch.allclose(a, b)\<close> with its default tolerances.\<close>

definition allclose :: "real \<Rightarrow> real \<Rightarrow> bool" where
  "allclose a b \<longleftrightarrow> \<bar>a - b\<bar> \<le> 1 / 10 ^ 8 + 1 / 10 ^ 5 * \<bar>b\<bar>"

text \<open>
  \<^verbatim>\<open>circular_gaussian2d\<close> (\<^verbatim>\<open>filters.py\<close>) is not among the sources: the window it returns
  for a size is a parameter \<open>gauss\<close>. The source renormalises a window whose sum is not
  close to 1.
\<close>

definition normalized_window :: "real plane \<Rightarrow> real plane" where
  "normalized_window window =
     (let window_sum = sum_list (concat window)
      in if \<not> allclose window_sum 1 then pmap (\<lambda>v. v / window_sum) window else window)"

text \<open>\<^verbatim>\<open>F.conv2d(img, window, padding=0)\<close> on one plane: the entry at \<open>(r, c)\<close>.\<close>

definition wavg :: "real plane \<Rightarrow> real plane \<Rightarrow> nat \<Rightarrow> nat \<Rightarrow> real" where
  "wavg w X r c = (\<Sum>i<length w. \<Sum>j<width_of w. w ! i ! j * X ! (r + i) ! (c + j))"

definition windowed_average :: "real plane \<Rightarrow> real plane \<Rightarrow> real plane" where
  "windowed_average w X =
     map (\<lambda>r. map (\<lambda>c. wavg w X r c) [0..<width_of X + 1 - width_of w]) [0..<length X + 1 - length w]"

definition pmul :: "real plane \<Rightarrow> real plane \<Rightarrow> real plane" where
  "pmul X Y = map2 (map2 (\<lambda>a b. a * b)) X Y"

definition pzip :: "('a \<Rightarrow> 'b \<Rightarrow> 'c) \<Rightarrow> 'a plane \<Rightarrow> 'b plane \<Rightarrow> 'c plane" where
  "pzip f X Y = map2 (map2 f) X Y"

definition C1_of :: "real \<Rightarrow> real" where
  "C1_of dynamic_range = (1 / 100 * dynamic_range)\<^sup>2"

definition C2_of :: "real \<Rightarrow> real" where
  "C2_of dynamic_range = (3 / 100 * dynamic_range)\<^sup>2"

record ssim_maps =
  map_ssim :: "fval plane"
  contrast_structure_map :: "fval plane"
  weight :: "fval plane"

text \<open>The body of \<^verbatim>\<open>_ssim_parts\<close> from \<^verbatim>\<open>mu1\<close> on, for one plane of each image.\<close>

definition ssim_parts_plane :: "real plane \<Rightarrow> real \<Rightarrow> real plane \<Rightarrow> real plane \<Rightarrow> ssim_maps" where
  "ssim_parts_plane window dynamic_range X Y =
     (let mu1 = windowed_average window X;
          mu2 = windowed_average window Y;
          mu1_sq = pmap (\<lambda>a. a\<^sup>2) mu1;
          mu2_sq = pmap (\<lambda>a. a\<^sup>2) mu2;
          mu1_mu2 = pmul mu1 mu2;
          sigma1_sq = pzip (\<lambda>a b. a - b) (windowed_average window (pmul X X)) mu1_sq;
          sigma2_sq = pzip (\<lambda>a b. a - b) (windowed_average window (pmul Y Y)) mu2_sq;
          sigma12 = pzip (\<lambda>a b. a - b) (windowed_average window (pmul X Y)) mu1_mu2;
          C1 = C1_of dynamic_range;
          C2 = C2_of dynamic_range;
          luminance_map = pzip (\<lambda>n d. fdiv (Fin (2 * n + C1)) (Fin (d + C1)))
                            mu1_mu2 (pzip (\<lambda>a b. a + b) mu1_sq mu2_sq);
          cs_map = pzip (\<lambda>n d. fdiv (Fin (2 * n + C2)) (Fin (d + C2)))
                            sigma12 (pzip (\<lambda>a b. a + b) sigma1_sq sigma2_sq)
      in \<lparr>map_ssim = pzip fmul luminance_map cs_map,
          contrast_structure_map = cs_map,
          weight = pzip (\<lambda>a b. flog (fmul (fadd (Fin 1) (fdiv (Fin a) (Fin C2)))
                                         (fadd (Fin 1) (fdiv (Fin b) (Fin C2)))))
                     sigma1_sq sigma2_sq\<rparr>)"

text \<open>Two lists that torch broadcasts against each other, as the list of the pairs that
  meet; the caller has checked that the lengths are equal or one of them is 1.\<close>

definition bpairs :: "'a list \<Rightarrow> 'b list \<Rightarrow> ('a \<times> 'b) list" where
  "bpairs xs ys =
     (if length xs = length ys then zip xs ys
      else if length xs = 1 then map (\<lambda>y. (hd xs, y)) ys
      else map (\<lambda>x. (x, hd ys)) xs)"

text \<open>
  \<^verbatim>\<open>_ssim_parts(img1, img2, dynamic_range, pad=False)\<close>: \<^verbatim>\<open>min()\<close> of a tensor
  without entries is a \<^verbatim>\<open>RuntimeError\<close>. The warnings about the range of the images
  and about several channels are not part of the result. The result holds the three maps
  for every batch and channel.
\<close>

definition ssim_parts ::
  "(nat \<Rightarrow> real plane) \<Rightarrow> image \<Rightarrow> image \<Rightarrow> real \<Rightarrow> error + ssim_maps list list" where
  "ssim_parts gauss img1 img2 dynamic_range =
     (if numel img1 = 0 \<or> numel img2 = 0 then Inl RuntimeError
      else ebind (check_images img1 img2) (\<lambda>_.
        (let real_size = min 11 (min (fst (spatial_r img1)) (snd (spatial_r img1)));
             window = normalized_window (gauss real_size)
         in Inr (map (\<lambda>bb. map (\<lambda>cc. ssim_parts_plane window dynamic_range (fst cc) (snd cc))
                              (bpairs (fst bb) (snd bb)))
                   (bpairs img1 img2)))))"

text \<open>\<^verbatim>\<open>ssim(img1, img2, weighted, dynamic_range, pad=False)\<close>, of shape (batch, channel).\<close>

definition ssim ::
  "(nat \<Rightarrow> real plane) \<Rightarrow> image \<Rightarrow> image \<Rightarrow> bool \<Rightarrow> real \<Rightarrow> error + fval list list" where
  "ssim gauss img1 img2 weighted dynamic_range =
     ebind (ssim_parts gauss img1 img2 dynamic_range) (\<lambda>parts.
       Inr (map (map (\<lambda>m.
              if \<not> weighted then fmean_plane (map_ssim m)
              else fdiv (fsum_plane (pzip fmul (map_ssim m) (weight m))) (fsum_plane (weight m))))
            parts))"

text \<open>The local \<^verbatim>\<open>downsample\<close> of \<^verbatim>\<open>ms_ssim\<close>: replicate the last column and row of
  an odd side, then average 2 by 2 blocks.\<close>

definition pad_replicate :: "real plane \<Rightarrow> real plane" where
  "pad_replicate X =
     (let X' = (if width_of X mod 2 = 1 then map (\<lambda>r. r @ [last r]) X else X)
      in if length X mod 2 = 1 then X' @ [last X'] else X')"

definition avg_pool2 :: "real plane \<Rightarrow> real plane" where
  "avg_pool2 X =
     map (\<lambda>r. map (\<lambda>c. (X ! (2 * r) ! (2 * c) + X ! (2 * r) ! (2 * c + 1) +
                         X ! (2 * r + 1) ! (2 * c) + X ! (2 * r + 1) ! (2 * c + 1)) / 4)
                [0..<width_of X div 2]) [0..<length X div 2]"

definition downsample_img :: "image \<Rightarrow> image" where
  "downsample_img img = map (map (\<lambda>X. avg_pool2 (pad_replicate X))) img"

text \<open>\<^verbatim>\<open>msssim\<close> starts as the number 1 and is multiplied by one tensor of shape (batch,
  channel) per scale.\<close>

datatype msacc = One | Acc "fval list list"

definition acc_times :: "msacc \<Rightarrow> fval list list \<Rightarrow> msacc" where
  "acc_times a t =
     (case a of One \<Rightarrow> Acc (map (map (fmul (Fin 1))) t)
      | Acc m \<Rightarrow> Acc (map2 (map2 fmul) m t))"

definition default_power_factors :: "real list" where
  "default_power_factors = [448 / 10000, 2856 / 10000, 3001 / 10000, 2363 / 10000, 1333 / 10000]"

text \<open>The loop \<^verbatim>\<open>for i in range(len(power_factors) - 1)\<close>, over the exponents but the
  last.\<close>

fun ms_ssim_loop ::
  "(nat \<Rightarrow> real plane) \<Rightarrow> real \<Rightarrow> real list \<Rightarrow> image \<Rightarrow> image \<Rightarrow> msacc \<Rightarrow>
   error + msacc \<times> image \<times> image" where
  "ms_ssim_loop gauss dynamic_range [] img1 img2 msssim = Inr (msssim, img1, img2)"
| "ms_ssim_loop gauss dynamic_range (a # as) img1 img2 msssim =
     ebind (ssim_parts gauss img1 img2 dynamic_range) (\<lambda>parts.
       ms_ssim_loop gauss dynamic_range as (downsample_img img1) (downsample_img img2)
         (acc_times msssim
            (map (map (\<lambda>m. fpow (relu (fmean_plane (contrast_structure_map m))) a)) parts)))"

definition ms_ssim ::
  "(nat \<Rightarrow> real plane) \<Rightarrow> image \<Rightarrow> image \<Rightarrow> real \<Rightarrow> real list option \<Rightarrow> error + msacc" where
  "ms_ssim gauss img1 img2 dynamic_range power_factors =
     (let pf = (case power_factors of None \<Rightarrow> default_power_factors | Some l \<Rightarrow> l) in
      ebind (ms_ssim_loop gauss dynamic_range (butlast pf) img1 img2 One) (\<lambda>st.
      ebind (ssim_parts gauss (fst (snd st)) (snd (snd st)) dynamic_range) (\<lambda>parts.
        if pf = [] then Inl IndexError
        else Inr (acc_times (fst st)
               (map (map (\<lambda>m. fpow (relu (fmean_plane (map_ssim m))) (last pf))) parts)))))"

section \<open>NLPD and NSPD\<close>

fun fneg :: "fval \<Rightarrow> fval" where
  "fneg (Fin a) = Fin (- a)"
| "fneg PInf = NInf"
| "fneg NInf = PInf"
| "fneg NaN = NaN"

definition fsub :: "fval \<Rightarrow> fval \<Rightarrow> fval" where
  "fsub a b = fadd a (fneg b)"

definition epsilon :: real where
  "epsilon = 1 / 10 ^ 10"

text \<open>
  One entry of \<^verbatim>\<open>dist\<close> for one plane of each representation:
  \<^verbatim>\<open>sqrt(mean((y1 - y2) ** 2, dim=(2, 3)) + epsilon)\<close>, and for the low-pass residual of
  NSPD \<^verbatim>\<open>sqrt(mean((y1 - y2) ** 2 / (y1 ** 2 + y2 ** 2), dim=(2, 3)) + epsilon)\<close>.
\<close>

definition sq_diff :: "bool \<Rightarrow> fval \<Rightarrow> fval \<Rightarrow> fval" where
  "sq_diff lowpass a b =
     (if lowpass then fdiv (fmul (fsub a b) (fsub a b)) (fadd (fmul a a) (fmul b b))
      else fmul (fsub a b) (fsub a b))"

definition dist_plane :: "bool \<Rightarrow> fval plane \<Rightarrow> fval plane \<Rightarrow> error + fval" where
  "dist_plane lowpass X Y =
     ebind (bplane (sq_diff lowpass) X Y) (\<lambda>P. Inr (fsqrt (fadd (fmean_plane P) (Fin epsilon))))"

definition dist_term :: "bool \<Rightarrow> fval plane list list \<Rightarrow> fval plane list list \<Rightarrow> error + fval list list" where
  "dist_term lowpass y1 y2 = bzip (bzip (dist_plane lowpass)) y1 y2"

text \<open>\<^verbatim>\<open>torch.stack(dist).mean(dim=0)\<close>: the list must not be empty and its members must
  have one shape.\<close>

definition stack_mean :: "fval list list list \<Rightarrow> error + fval list list" where
  "stack_mean ds =
     (if ds = [] then Inl RuntimeError
      else if \<not> list_all (\<lambda>d. map length d = map length (hd ds)) ds then Inl RuntimeError
      else Inr (map (\<lambda>b. map (\<lambda>c. fdiv (fsum (map (\<lambda>d. d ! b ! c) ds)) (Fin (real (length ds))))
                          [0..<length (hd ds ! b)])
                  [0..<length (hd ds)]))"

subsection \<open>The normalized Laplacian pyramid\<close>

text \<open>
  \<^verbatim>\<open>LaplacianPyramid\<close> and the two data files of \<^verbatim>\<open>normalized_laplacian_pyramid\<close> are
  not among the sources: the pyramid's \<^verbatim>\<open>forward\<close>, the pooling filters and the sigmas
  are parameters.
\<close>

record nlp_env =
  laplacian_forward :: "image \<Rightarrow> error + image list"
  spatialpooling_filters :: "real plane list"
  DN_sigmas :: "real list"

text \<open>\<^verbatim>\<open>F.conv2d(abs(a), filt, padding=2, groups=channel)\<close> on one plane: zeros around the
  plane, two on each side.\<close>

definition pad2_get :: "real plane \<Rightarrow> nat \<Rightarrow> nat \<Rightarrow> real" where
  "pad2_get X r c =
     (if 2 \<le> r \<and> r < length X + 2 \<and> 2 \<le> c \<and> c < width_of X + 2 then X ! (r - 2) ! (c - 2) else 0)"

definition conv2d_pad2 :: "real plane \<Rightarrow> real plane \<Rightarrow> real plane" where
  "conv2d_pad2 filt X =
     map (\<lambda>r. map (\<lambda>c. (\<Sum>i<length filt. \<Sum>j<width_of filt. filt ! i ! j * pad2_get X (r + i) (c + j)))
                [0..<width_of X + 5 - width_of filt])
       [0..<length X + 5 - length filt]"

definition normalize_plane :: "real plane \<Rightarrow> real \<Rightarrow> real plane \<Rightarrow> error + fval plane" where
  "normalize_plane filt sigma X =
     bplane (\<lambda>a f. fdiv (Fin a) (Fin (sigma + f))) X (conv2d_pad2 filt (pmap abs X))"

definition normalized_laplacian_pyramid :: "nlp_env \<Rightarrow> image \<Rightarrow> error + fval plane list list list" where
  "normalized_laplacian_pyramid env img =
     ebind (laplacian_forward env img) (\<lambda>laplacian_activations.
       sequence (map (\<lambda>N_b.
         ebind (nth_py (spatialpooling_filters env) N_b) (\<lambda>filt.
         ebind (nth_py laplacian_activations N_b) (\<lambda>act.
         ebind (nth_py (DN_sigmas env) N_b) (\<lambda>sigma.
           sequence (map (\<lambda>b. sequence (map (normalize_plane filt sigma) b)) act)))))
         [0..<6]))"

definition nlpd :: "nlp_env \<Rightarrow> image \<Rightarrow> image \<Rightarrow> error + fval list list" where
  "nlpd env img1 img2 =
     ebind (check_images img1 img2) (\<lambda>_.
     ebind (normalized_laplacian_pyramid env img1) (\<lambda>y1.
     ebind (normalized_laplacian_pyramid env img2) (\<lambda>y2.
     ebind (sequence (map (\<lambda>i.
              ebind (nth_py y1 i) (\<lambda>a. ebind (nth_py y2 i) (\<lambda>b. dist_term False a b)))
              [0..<6]))
       stack_mean)))"

subsection \<open>The normalized steerable pyramid\<close>

text \<open>
  \<^verbatim>\<open>local_gain_control\<close> (\<^verbatim>\<open>non_linearities.py\<close>) and the pickled sigmas are not among
  the sources: the second component that the gain control returns for a band and its
  sigma, and the table of the file, are parameters.
\<close>

record nsp_env =
  signal :: signal_tools
  local_gain_control :: "tensor \<Rightarrow> real \<Rightarrow> tensor"
  nspd_sigmas :: "(key, real) odict"

definition to_tensor :: "image \<Rightarrow> tensor" where
  "to_tensor img = Tensor Float (map (map (pmap complex_of_real)) img)"

definition fplanes :: "tensor \<Rightarrow> fval plane list list" where
  "fplanes t = map (map (pmap (\<lambda>z. Fin (Re z)))) (dat t)"

text \<open>The loop over the keys of the coefficients: the low-pass residual is kept, the
  high-pass residual dropped, every band normalized.\<close>

fun normalize_coeffs :: "nsp_env \<Rightarrow> (key, real) odict \<Rightarrow> coeffs \<Rightarrow> coeffs \<Rightarrow> error + coeffs" where
  "normalize_coeffs env sigmas [] acc = Inr acc"
| "normalize_coeffs env sigmas ((k, v) # kvs) acc =
     (if k = Residual_lowpass then normalize_coeffs env sigmas kvs (od_set k v acc)
      else if k = Residual_highpass then normalize_coeffs env sigmas kvs acc
      else ebind (od_get sigmas k) (\<lambda>e.
             normalize_coeffs env sigmas kvs (od_set k (local_gain_control env v e) acc)))"

definition normalized_steerable_pyramid ::
  "nsp_env \<Rightarrow> image \<Rightarrow> (key, real) odict option \<Rightarrow> error + coeffs" where
  "normalized_steerable_pyramid env img sigmas =
     (let sg = (case sigmas of None \<Rightarrow> nspd_sigmas env | Some s \<Rightarrow> s) in
      ebind (init (signal env) (spatial_r img) (Height 5) 3 1 False True False) (\<lambda>spyr.
      ebind (forward (fst spyr) (to_tensor img) []) (\<lambda>spyr_coeffs.
        normalize_coeffs env sg (fst spyr_coeffs) [])))"

text \<open>The loop \<^verbatim>\<open>for key in y1.keys()\<close> of \<^verbatim>\<open>nspd\<close>.\<close>

fun nspd_dists :: "coeffs \<Rightarrow> coeffs \<Rightarrow> key list \<Rightarrow> error + fval list list list" where
  "nspd_dists y1 y2 [] = Inr []"
| "nspd_dists y1 y2 (k # ks) =
     ebind (od_get y1 k) (\<lambda>a.
     ebind (od_get y2 k) (\<lambda>b.
     ebind (dist_term (k = Residual_lowpass) (fplanes a) (fplanes b)) (\<lambda>d.
     ebind (nspd_dists y1 y2 ks) (\<lambda>ds. Inr (d # ds)))))"

definition nspd :: "nsp_env \<Rightarrow> image \<Rightarrow> image \<Rightarrow> (key, real) odict option \<Rightarrow> error + fval list list" where
  "nspd env img1 img2 sigmas =
     ebind (check_images img1 img2) (\<lambda>_.
     ebind (normalized_steerable_pyramid env img1 sigmas) (\<lambda>y1.
     ebind (normalized_steerable_pyramid env img2 sigmas) (\<lambda>y2.
     ebind (nspd_dists y1 y2 (od_keys y1)) stack_mean)))"

section \<open>Vocabulary of the statements\<close>

definition all_keys :: "pyramid \<Rightarrow> key list" where
  "all_keys p =
     [Residual_highpass] @
     concat (map (\<lambda>i. map (Band i) [0..<num_orientations p]) [0..<nat (num_scales p)]) @
     [Residual_lowpass]"

definition constructed :: "pyramid \<Rightarrow> bool" where
  "constructed p \<longleftrightarrow>
     (\<exists>tools shp h ord tw cplx ds tight p0 ws sz.
        init tools shp h ord tw cplx ds tight = Inr (p0, ws) \<and> p = p0\<lparr>pyr_size := sz\<rparr>)"

definition add_keys :: "'k list \<Rightarrow> 'k list \<Rightarrow> 'k list" where
  "add_keys ks new = foldl (\<lambda>ks k. if k \<in> set ks then ks else ks @ [k]) ks new"

definition requested_bands :: "pyramid \<Rightarrow> level list \<Rightarrow> nat list \<Rightarrow> key list" where
  "requested_bands p scs is =
     concat (map (\<lambda>i. if Level (int i) \<in> set scs then map (Band i) [0..<num_orientations p] else []) is)"

definition effective_scales :: "pyramid \<Rightarrow> level list \<Rightarrow> level list" where
  "effective_scales p scales_arg = (if scales_arg = [] then scales p else scales_arg)"

definition requested_keys :: "pyramid \<Rightarrow> level list \<Rightarrow> key list" where
  "requested_keys p scs =
     (if Resid_highpass \<in> set scs then [Residual_highpass] else []) @
     requested_bands p scs [0..<nat (num_scales p)] @
     (if Resid_lowpass \<in> set scs then [Residual_lowpass] else [])"

definition mmul :: "tensor \<Rightarrow> real plane \<Rightarrow> tensor" where
  "mmul t M = Tensor (dtype_of t) (tmap (\<lambda>X. pzip (\<lambda>z a. z * of_real a) X M) (dat t))"

definition next_dims :: "nat \<times> nat \<Rightarrow> nat \<times> nat" where
  "next_dims d = (ceil_half_down (fst d), ceil_half_down (snd d))"

primrec level_dims :: "bool \<Rightarrow> nat \<times> nat \<Rightarrow> nat \<Rightarrow> nat \<times> nat" where
  "level_dims ds d 0 = d"
| "level_dims ds d (Suc i) = (if ds then next_dims (level_dims ds d i) else level_dims ds d i)"

definition table_ok :: "bool \<Rightarrow> nat \<times> nat \<Rightarrow> nat \<Rightarrow> nat \<times> nat \<Rightarrow> nat \<times> nat \<Rightarrow> scale_tables \<Rightarrow> bool" where
  "table_ok ds dims0 no d d' t \<longleftrightarrow>
     rect d (t_himask t) \<and>
     length (t_anglemasks t) = no \<and> (\<forall>b<no. rect d (t_anglemasks t ! b)) \<and>
     length (t_anglemasks_recon t) = no \<and> (\<forall>b<no. rect d (t_anglemasks_recon t ! b)) \<and>
     rect d' (t_lomask t) \<and>
     t_loindex t = (if ds then lo_bounds d else ((0, 0), dims0))"

definition wf_pyramid :: "pyramid \<Rightarrow> bool" where
  "wf_pyramid p \<longleftrightarrow>
     0 < fst (image_shape p) \<and> 0 < snd (image_shape p) \<and>
     rect (image_shape p) (lo0mask p) \<and> rect (image_shape p) (hi0mask p) \<and>
     length (himasks p) = nat (num_scales p) \<and> length (lomasks p) = nat (num_scales p) \<and>
     length (anglemasks p) = nat (num_scales p) \<and> length (anglemasks_recon p) = nat (num_scales p) \<and>
     length (loindices p) = nat (num_scales p) \<and>
     (\<forall>i<nat (num_scales p).
        rect (level_dims (downsample p) (image_shape p) i) (himasks p ! i) \<and>
        length (anglemasks p ! i) = num_orientations p \<and>
        (\<forall>b<num_orientations p. rect (level_dims (downsample p) (image_shape p) i) (anglemasks p ! i ! b)) \<and>
        length (anglemasks_recon p ! i) = num_orientations p \<and>
        (\<forall>b<num_orientations p. rect (level_dims (downsample p) (image_shape p) i) (anglemasks_recon p ! i ! b)) \<and>
        rect (level_dims (downsample p) (image_shape p) (Suc i)) (lomasks p ! i) \<and>
        loindices p ! i =
          (if downsample p then lo_bounds (level_dims (downsample p) (image_shape p) i)
           else ((0, 0), image_shape p)))"

definition key_level :: "pyramid \<Rightarrow> key \<Rightarrow> nat" where
  "key_level p k = (case k of Residual_highpass \<Rightarrow> 0 | Band i b \<Rightarrow> i | Residual_lowpass \<Rightarrow> nat (num_scales p))"

definition key_dims :: "pyramid \<Rightarrow> key \<Rightarrow> nat \<times> nat" where
  "key_dims p k = level_dims (downsample p) (image_shape p) (key_level p k)"

definition band_of :: "pyramid \<Rightarrow> tensor \<Rightarrow> nat \<Rightarrow> nat \<Rightarrow> tensor" where
  "band_of p lodft i b =
     store_band p (ifft2 (fft_norm p) (ifftshift
       (mmul (mmul (scale_c (power_int (- \<i>) (order p)) lodft) (anglemasks p ! i ! b)) (himasks p ! i))))"

definition lodft_next :: "pyramid \<Rightarrow> nat \<Rightarrow> tensor \<Rightarrow> tensor" where
  "lodft_next p i l =
     (if \<not> downsample p then mmul l (lomasks p ! i)
      else mmul (crop4 (fst (loindices p ! i)) (snd (loindices p ! i)) l) (lomasks p ! i))"

definition scales_valid :: "pyramid \<Rightarrow> level list \<Rightarrow> bool" where
  "scales_valid p scs \<longleftrightarrow> list_all (\<lambda>i. 0 \<le> i \<and> i < num_scales p) (scale_ints scs)"

definition hi_of :: "pyramid \<Rightarrow> tensor \<Rightarrow> tensor" where
  "hi_of p x = real_part (ifft2 (fft_norm p) (ifftshift (mmul (fftshift (fft2 (fft_norm p) x)) (hi0mask p))))"

definition lo_of :: "pyramid \<Rightarrow> tensor \<Rightarrow> tensor" where
  "lo_of p l = real_part (ifft2 (fft_norm p) (ifftshift l))"

definition requests_all :: "pyramid \<Rightarrow> level list \<Rightarrow> bool" where
  "requests_all p scales_arg \<longleftrightarrow>
     scales_arg = [] \<or>
     (Resid_highpass \<in> set scales_arg \<and> Resid_lowpass \<in> set scales_arg \<and>
      list_all (\<lambda>i. Level (int i) \<in> set scales_arg) [0..<nat (num_scales p)])"

definition zero_tools :: signal_tools where
  "zero_tools = \<lparr>rcosFn = (\<lambda>w pos. ([], [])), np_interp = (\<lambda>xp fp x. 0)\<rparr>"

definition zero_image :: "nat \<Rightarrow> nat \<Rightarrow> nat \<Rightarrow> nat \<Rightarrow> tensor" where
  "zero_image B C H W = Tensor Float (replicate B (replicate C (replicate H (replicate W 0))))"

definition pyramid_64 :: pyramid where
  "pyramid_64 = build zero_tools (64, 64) 3 3 1 False True False"

definition roundtrip :: "pyramid \<Rightarrow> coeffs \<Rightarrow> error + coeffs" where
  "roundtrip p c = ebind (convert_pyr_to_tensor p c) (convert_tensor_to_pyr p)"

definition cat_rows :: "nat \<Rightarrow> tensor list \<Rightarrow> complex plane list list" where
  "cat_rows B ts = map (\<lambda>b. concat (map (\<lambda>t. dat t ! b) ts)) [0..<B]"

definition pyramid_4 :: pyramid where
  "pyramid_4 = build zero_tools (4, 4) 0 3 1 False False False"

lemma ebind_simps [simp]:
  "ebind (Inl e) f = Inl e" "ebind (Inr v) f = f v"
  by (simp_all add: ebind_def)

lemma ebind_eq_Inr: "ebind m f = Inr r \<longleftrightarrow> (\<exists>v. m = Inr v \<and> f v = Inr r)"
  by (cases m) simp_all

lemma choose_num_scales_pos:
  "choose_num_scales shp h = Inr ns \<Longrightarrow> 0 < fst shp \<and> 0 < snd shp"
  by (auto simp: choose_num_scales_def max_ht_def split: height.splits if_splits)

lemma constructed_build:
  assumes "constructed p"
  obtains tools shp ns ord tw cplx ds tight sz where
    "p = (build tools shp ns ord tw cplx ds tight)\<lparr>pyr_size := sz\<rparr>"
    "0 < fst shp" "0 < snd shp" "1 \<le> ord" "ord \<le> 15" "0 < tw"
proof -
  from assms obtain tools shp h ord tw cplx ds tight p0 ws sz where
    i: "init tools shp h ord tw cplx ds tight = Inr (p0, ws)" and p: "p = p0\<lparr>pyr_size := sz\<rparr>"
    unfolding constructed_def by blast
  from i obtain ns where ns: "choose_num_scales shp h = Inr ns"
    and p0: "p0 = build tools shp ns (clamp_order ord) (clamp_twidth tw) cplx ds tight"
    by (auto simp: init_def ebind_eq_Inr)
  show ?thesis
  proof (rule that)
    show "p = (build tools shp ns (clamp_order ord) (clamp_twidth tw) cplx ds tight)\<lparr>pyr_size := sz\<rparr>"
      using p p0 by simp
    show "0 < fst shp" "0 < snd shp" using choose_num_scales_pos[OF ns] by simp_all
    show "1 \<le> clamp_order ord" "clamp_order ord \<le> 15" by (simp_all add: clamp_order_def)
    show "0 < clamp_twidth tw" by (simp add: clamp_twidth_def)
  qed
qed

lemma constructed_scales:
  "constructed p \<Longrightarrow>
   scales p = [Resid_lowpass] @ rev (map (\<lambda>i. Level (int i)) [0..<nat (num_scales p)]) @ [Resid_highpass]"
  by (erule constructed_build) (simp add: build_def Let_def)

lemma constructed_orientations: "constructed p \<Longrightarrow> 2 \<le> num_orientations p"
  by (erule constructed_build) (simp add: build_def Let_def)

lemma constructed_update: "constructed p \<Longrightarrow> constructed (p\<lparr>pyr_size := sz\<rparr>)"
  unfolding constructed_def by (elim exE conjE, intro exI conjI, assumption) simp

lemma check_all_scales_append:
  "check_all_scales p c (xs @ ys) =
     ebind (check_all_scales p c xs) (\<lambda>_. check_all_scales p c ys)"
  by (induction p c xs rule: check_all_scales.induct) auto

lemma check_all_scales_levels:
  "check_all_scales p c (map (\<lambda>i. Level (int i)) is) = Inr () \<Longrightarrow> i \<in> set is \<Longrightarrow>
   b < num_orientations p \<Longrightarrow> Band i b \<in> set (od_keys c)"
  by (induction "is") (auto simp: list_all_iff split: if_splits)

lemma check_all_scales_ok:
  assumes "constructed p" "check_all_scales p c (scales p) = Inr ()"
  shows "set (all_keys p) \<subseteq> set (od_keys c)"
proof -
  let ?ls = "map (\<lambda>i. Level (int i)) (rev [0..<nat (num_scales p)])"
  have sc: "scales p = [Resid_lowpass] @ ?ls @ [Resid_highpass]"
    using constructed_scales[OF assms(1)] by (simp add: rev_map)
  from assms(2) have a: "Residual_lowpass \<in> set (od_keys c)"
    and b: "check_all_scales p c (?ls @ [Resid_highpass]) = Inr ()"
    unfolding sc by (auto split: if_splits)
  from b have c1: "check_all_scales p c ?ls = Inr ()"
    and c2: "check_all_scales p c [Resid_highpass] = Inr ()"
    unfolding check_all_scales_append by (auto simp: ebind_eq_Inr)
  from c2 have d: "Residual_highpass \<in> set (od_keys c)" by (auto split: if_splits)
  have "Band i b \<in> set (od_keys c)" if "i < nat (num_scales p)" "b < num_orientations p" for i b
    using check_all_scales_levels[OF c1, of i b] that by simp
  with a d show ?thesis by (auto simp: all_keys_def)
qed

lemma check_all_scales_cases: "check_all_scales p c ss = Inr () \<or> check_all_scales p c ss = Inl Exception"
  by (induction p c ss rule: check_all_scales.induct) auto

lemma recon_pyr_missing:
  assumes "constructed p" "k \<in> set (all_keys p)" "k \<notin> set (od_keys c)"
  shows "recon_pyr p c levels bands tw = Inl Exception"
proof -
  have "check_all_scales p c (scales p) \<noteq> Inr ()"
    using check_all_scales_ok[OF assms(1)] assms(2,3) by blast
  then have "check_all_scales p c (scales p) = Inl Exception"
    using check_all_scales_cases[of p c "scales p"] by simp
  then show ?thesis by (simp add: recon_pyr_def)
qed

lemma add_keys_simps [simp]:
  "add_keys ks [] = ks"
  "add_keys ks (k # new) = add_keys (if k \<in> set ks then ks else ks @ [k]) new"
  by (simp_all add: add_keys_def)

lemma add_keys_append: "add_keys ks (xs @ ys) = add_keys (add_keys ks xs) ys"
  by (simp add: add_keys_def)

lemma add_keys_fresh:
  "distinct new \<Longrightarrow> set new \<inter> set ks = {} \<Longrightarrow> add_keys ks new = ks @ new"
  by (induction new arbitrary: ks) auto

lemma add_keys_present: "set new \<subseteq> set ks \<Longrightarrow> add_keys ks new = ks"
  by (induction new arbitrary: ks) auto

lemma od_keys_Nil: "od_keys [] = []"
  by (simp add: od_keys_def)

lemma od_keys_od_set:
  "od_keys (od_set k v d) = add_keys (od_keys d) [k]"
  by (auto simp: od_set_def od_keys_def split: prod.splits intro!: map_idI)

lemma forward_bands_keys:
  "forward_bands p l hm i bs cs = Inr cs' \<Longrightarrow>
   od_keys (fst cs') = add_keys (od_keys (fst cs)) (map (Band i) bs) \<and>
   od_keys (snd cs') = add_keys (od_keys (snd cs)) (map (Band i) bs)"
proof (induction bs arbitrary: cs)
  case Nil
  then show ?case by simp
next
  case (Cons b bs)
  from Cons.prems obtain cs1 where
    1: "forward_bands p l hm i bs cs1 = Inr cs'"
    and 2: "od_keys (fst cs1) = add_keys (od_keys (fst cs)) [Band i b]"
    and 3: "od_keys (snd cs1) = add_keys (od_keys (snd cs)) [Band i b]"
    by (auto simp: ebind_eq_Inr Let_def od_keys_od_set)
  from Cons.IH[OF 1] 2 3 show ?case by simp
qed

lemma forward_scales_keys:
  "forward_scales p scs is st = Inr st' \<Longrightarrow>
   od_keys (fst (snd st')) = add_keys (od_keys (fst (snd st))) (requested_bands p scs is) \<and>
   od_keys (snd (snd st')) = add_keys (od_keys (snd (snd st))) (requested_bands p scs is)"
proof (induction "is" arbitrary: st)
  case Nil
  then show ?case by (simp add: requested_bands_def)
next
  case (Cons i "is")
  from Cons.prems obtain cs l where
    1: "(if Level (int i) \<in> set scs then
           ebind (nth_py (himasks p) i) (\<lambda>himask.
             forward_bands p (fst st) himask i [0..<num_orientations p] (snd st))
         else Inr (snd st)) = Inr cs"
    and 2: "forward_scales p scs is (l, cs) = Inr st'"
    by (auto simp: ebind_eq_Inr)
  have 3: "od_keys (fst cs) = add_keys (od_keys (fst (snd st))) (requested_bands p scs [i]) \<and>
           od_keys (snd cs) = add_keys (od_keys (snd (snd st))) (requested_bands p scs [i])"
  proof (cases "Level (int i) \<in> set scs")
    case True
    with 1 obtain hm where "forward_bands p (fst st) hm i [0..<num_orientations p] (snd st) = Inr cs"
      by (auto simp: ebind_eq_Inr)
    from forward_bands_keys[OF this] True show ?thesis by (simp add: requested_bands_def)
  next
    case False
    with 1 show ?thesis by (simp add: requested_bands_def)
  qed
  have 4: "requested_bands p scs (i # is) = requested_bands p scs [i] @ requested_bands p scs is"
    by (simp add: requested_bands_def)
  from Cons.IH[OF 2] 3 show ?case unfolding 4 add_keys_append by simp
qed

lemma distinct_requested_bands: "distinct is \<Longrightarrow> distinct (requested_bands p scs is)"
  by (induction "is") (auto simp: requested_bands_def distinct_map inj_on_def)

lemma requested_bands_set: "k \<in> set (requested_bands p scs is) \<Longrightarrow> \<exists>i b. k = Band i b"
  by (auto simp: requested_bands_def split: if_splits)

lemma distinct_requested_keys: "distinct (requested_keys p scs)"
  using requested_bands_set[of _ p scs "[0..<nat (num_scales p)]"]
  by (auto simp: requested_keys_def distinct_requested_bands)

lemma forward_keys:
  assumes "forward p x scales_arg = Inr (c, p')"
  shows "od_keys c = requested_keys p (effective_scales p scales_arg)"
    and "od_keys (pyr_size p') = add_keys (od_keys (pyr_size p)) (requested_keys p (effective_scales p scales_arg))"
proof -
  let ?scs = "effective_scales p scales_arg"
  let ?n = "nat (num_scales p)"
  from assms obtain cs l st where
    1: "(if Resid_highpass \<in> set ?scs then
           ebind (mul_mask (fftshift (fft2 (fft_norm p) x)) (hi0mask p)) (\<lambda>hi0dft.
             (let hi0 = real_part (ifft2 (fft_norm p) (ifftshift hi0dft))
              in Inr (od_set Residual_highpass hi0 [],
                      od_set Residual_highpass (spatial hi0) (pyr_size p))))
         else Inr ([], pyr_size p)) = Inr cs"
    and 2: "forward_scales p ?scs [0..<?n] (l, cs) = Inr st"
    and 3: "(if Resid_lowpass \<in> set ?scs then
               (let lo0 = real_part (ifft2 (fft_norm p) (ifftshift (fst st)))
                in (od_set Residual_lowpass lo0 (fst (snd st)),
                    od_set Residual_lowpass (spatial lo0) (snd (snd st))))
             else snd st) = (c, pyr_size p')"
    unfolding forward_def effective_scales_def Let_def
    by (auto simp: ebind_eq_Inr split: if_splits)
  let ?h = "if Resid_highpass \<in> set ?scs then [Residual_highpass] else []"
  let ?l = "if Resid_lowpass \<in> set ?scs then [Residual_lowpass] else []"
  from 1 have a: "od_keys (fst cs) = add_keys [] ?h \<and> od_keys (snd cs) = add_keys (od_keys (pyr_size p)) ?h"
    by (auto simp: ebind_eq_Inr Let_def od_keys_od_set od_keys_Nil split: if_splits)
  from forward_scales_keys[OF 2] a have b:
    "od_keys (fst (snd st)) = add_keys [] (?h @ requested_bands p ?scs [0..<?n])"
    "od_keys (snd (snd st)) = add_keys (od_keys (pyr_size p)) (?h @ requested_bands p ?scs [0..<?n])"
    by (simp_all add: add_keys_append)
  have e: "od_keys c = add_keys (od_keys (fst (snd st))) ?l \<and>
           od_keys (pyr_size p') = add_keys (od_keys (snd (snd st))) ?l"
  proof (cases "Resid_lowpass \<in> set ?scs")
    case True
    with 3 have "c = od_set Residual_lowpass (real_part (ifft2 (fft_norm p) (ifftshift (fst st)))) (fst (snd st))"
      and "pyr_size p' = od_set Residual_lowpass
             (spatial (real_part (ifft2 (fft_norm p) (ifftshift (fst st))))) (snd (snd st))"
      by (simp_all add: Let_def)
    with True show ?thesis by (simp only: od_keys_od_set if_True)
  next
    case False
    with 3 have "snd st = (c, pyr_size p')" by simp
    then have "fst (snd st) = c" "snd (snd st) = pyr_size p'" by simp_all
    with False show ?thesis by simp
  qed
  have c: "od_keys c = add_keys [] (requested_keys p ?scs)"
    and d: "od_keys (pyr_size p') = add_keys (od_keys (pyr_size p)) (requested_keys p ?scs)"
    unfolding requested_keys_def using e b
    by (simp_all only: add_keys_append append_assoc[symmetric])
  show "od_keys c = requested_keys p ?scs"
  proof -
    have "add_keys [] (requested_keys p ?scs) = [] @ requested_keys p ?scs"
      by (rule add_keys_fresh) (simp_all add: distinct_requested_keys)
    with c show ?thesis by simp
  qed
  show "od_keys (pyr_size p') = add_keys (od_keys (pyr_size p)) (requested_keys p ?scs)" by (rule d)
qed

lemma sequence_map_Inr:
  "(\<And>x. x \<in> set xs \<Longrightarrow> g x = Inr (f x)) \<Longrightarrow> sequence (map g xs) = Inr (map f xs)"
  by (induction xs) simp_all

lemma bzip_same:
  assumes "length xs = length ys"
    and "\<And>x y. (x, y) \<in> set (zip xs ys) \<Longrightarrow> f x y = Inr (g x y)"
  shows "bzip f xs ys = Inr (map2 g xs ys)"
proof -
  have "sequence (map (\<lambda>(x, y). f x y) (zip xs ys)) = Inr (map (\<lambda>(x, y). g x y) (zip xs ys))"
    by (rule sequence_map_Inr) (use assms(2) in auto)
  with assms(1) show ?thesis by (simp add: bzip_def)
qed

lemma rect_iff: "rect s X \<longleftrightarrow> length X = fst s \<and> (\<forall>r\<in>set X. length r = snd s)"
  by (simp add: rect_def list_all_iff)

lemma bplane_rect:
  assumes "rect s X" "rect s Y"
  shows "bplane f X Y = Inr (pzip f X Y)"
  unfolding bplane_def pzip_def
proof (rule bzip_same)
  show "length X = length Y" using assms by (simp add: rect_iff)
next
  fix x y assume "(x, y) \<in> set (zip X Y)"
  then have "x \<in> set X" "y \<in> set Y" by (auto dest: set_zip_leftD set_zip_rightD)
  then have "length x = length y" using assms by (simp add: rect_iff)
  then show "bzip (\<lambda>a b. Inr (f a b)) x y = Inr (map2 f x y)"
    by (rule bzip_same) simp
qed

lemma rect_pzip: "rect s X \<Longrightarrow> rect s Y \<Longrightarrow> rect s (pzip f X Y)"
proof -
  assume a: "rect s X" "rect s Y"
  have "length (map2 f x y) = snd s" if "(x, y) \<in> set (zip X Y)" for x y
  proof -
    from that have "x \<in> set X" "y \<in> set Y" by (auto dest: set_zip_leftD set_zip_rightD)
    with a show ?thesis by (simp add: rect_iff)
  qed
  with a show ?thesis by (auto simp: rect_iff pzip_def)
qed

lemma rect_pmap: "rect s X \<Longrightarrow> rect s (pmap f X)"
  by (auto simp: rect_iff pmap_def)

lemma has_shape_iff:
  "has_shape (B, C, H, W) t \<longleftrightarrow>
     length (dat t) = B \<and> (\<forall>b\<in>set (dat t). length b = C \<and> (\<forall>X\<in>set b. rect (H, W) X))"
  by (simp add: has_shape_def list_all_iff)

lemma has_shape_tmap:
  assumes "has_shape (B, C, H, W) t" "\<And>X. rect (H, W) X \<Longrightarrow> rect (H', W') (f X)"
  shows "has_shape (B, C, H', W') (Tensor dt (tmap f (dat t)))"
  using assms by (auto simp: has_shape_iff tmap_def)

lemma mul_mask_ok:
  assumes "has_shape (B, C, H, W) t" "rect (H, W) M"
  shows "mul_mask t M = Inr (mmul t M)" and "has_shape (B, C, H, W) (mmul t M)"
proof -
  have "sequence (map (\<lambda>b. sequence (map (\<lambda>X. bplane (\<lambda>z a. z * of_real a) X M) b)) (dat t))
        = Inr (map (map (\<lambda>X. pzip (\<lambda>z a. z * of_real a) X M)) (dat t))"
  proof (rule sequence_map_Inr)
    fix b assume b: "b \<in> set (dat t)"
    show "sequence (map (\<lambda>X. bplane (\<lambda>z a. z * of_real a) X M) b)
          = Inr (map (\<lambda>X. pzip (\<lambda>z a. z * of_real a) X M) b)"
    proof (rule sequence_map_Inr)
      fix X assume "X \<in> set b"
      with b assms(1) have "rect (H, W) X" by (auto simp: has_shape_iff)
      then show "bplane (\<lambda>z a. z * of_real a) X M = Inr (pzip (\<lambda>z a. z * of_real a) X M)"
        using assms(2) by (rule bplane_rect)
    qed
  qed
  then show "mul_mask t M = Inr (mmul t M)" by (simp add: mul_mask_def mmul_def tmap_def)
  show "has_shape (B, C, H, W) (mmul t M)"
    unfolding mmul_def using assms(1) by (rule has_shape_tmap) (simp add: rect_pzip assms(2))
qed

lemma set_drop_take: "set (drop k xs) \<union> set (take k xs) = set xs"
  by (metis append_take_drop_id set_append sup_commute)

lemma set_fftshift1 [simp]: "set (fftshift1 xs) = set xs"
  by (simp add: fftshift1_def Let_def set_drop_take)

lemma length_fftshift1 [simp]: "length (fftshift1 xs) = length xs"
  by (simp add: fftshift1_def Let_def)

lemma set_ifftshift1 [simp]: "set (ifftshift1 xs) = set xs"
  by (simp add: ifftshift1_def Let_def set_drop_take)

lemma length_ifftshift1 [simp]: "length (ifftshift1 xs) = length xs"
  by (simp add: ifftshift1_def Let_def)

lemma has_shape_fftshift: "has_shape s t \<Longrightarrow> has_shape s (fftshift t)"
  by (cases s) (auto simp: has_shape_iff fftshift_def rect_iff)

lemma has_shape_ifftshift: "has_shape s t \<Longrightarrow> has_shape s (ifftshift t)"
  by (cases s) (auto simp: has_shape_iff ifftshift_def rect_iff)

lemma width_of_rect: "rect (H, W) X \<Longrightarrow> 0 < H \<Longrightarrow> width_of X = W"
  by (cases X) (auto simp: rect_iff width_of_def)

lemma rect_fft2_plane: "rect (H, W) X \<Longrightarrow> rect (H, W) (fft2_plane nrm X)"
  by (cases "H = 0") (auto simp: rect_iff fft2_plane_def Let_def width_of_rect[unfolded rect_iff])

lemma rect_ifft2_plane: "rect (H, W) X \<Longrightarrow> rect (H, W) (ifft2_plane nrm X)"
  by (cases "H = 0") (auto simp: rect_iff ifft2_plane_def Let_def width_of_rect[unfolded rect_iff])

lemma has_shape_fft2: "has_shape (B, C, H, W) t \<Longrightarrow> has_shape (B, C, H, W) (fft2 nrm t)"
  unfolding fft2_def by (erule has_shape_tmap) (rule rect_fft2_plane)

lemma has_shape_ifft2: "has_shape (B, C, H, W) t \<Longrightarrow> has_shape (B, C, H, W) (ifft2 nrm t)"
  unfolding ifft2_def by (erule has_shape_tmap) (rule rect_ifft2_plane)

lemma has_shape_real_part: "has_shape (B, C, H, W) t \<Longrightarrow> has_shape (B, C, H, W) (real_part t)"
  unfolding real_part_def by (erule has_shape_tmap) (rule rect_pmap)

lemma has_shape_scale_c: "has_shape (B, C, H, W) t \<Longrightarrow> has_shape (B, C, H, W) (scale_c c t)"
  unfolding scale_c_def by (erule has_shape_tmap) (rule rect_pmap)

lemma has_shape_scale_r: "has_shape (B, C, H, W) t \<Longrightarrow> has_shape (B, C, H, W) (scale_r c t)"
  unfolding scale_r_def by (erule has_shape_tmap) (rule rect_pmap)

lemma has_shape_store_band: "has_shape (B, C, H, W) t \<Longrightarrow> has_shape (B, C, H, W) (store_band p t)"
  by (simp add: store_band_def has_shape_real_part has_shape_scale_r)

lemma rect_crop:
  "rect (H, W) X \<Longrightarrow> rect (min b0 H - a0, min b1 W - a1) (crop (a0, a1) (b0, b1) X)"
  by (auto simp: rect_iff crop_def dest!: in_set_dropD in_set_takeD)

lemma ceil_half_up_eq: "ceil_half_up d = d div 2 + 1"
proof -
  have "\<lceil>(real d + 1 / 2) / 2\<rceil> = int (d div 2) + 1"
  proof (cases "even d")
    case True
    then obtain q where "d = 2 * q" by (auto elim: evenE)
    then show ?thesis by (simp add: ceiling_eq_iff)
  next
    case False
    then obtain q where "d = 2 * q + 1" by (auto elim: oddE)
    then show ?thesis by (simp add: ceiling_eq_iff)
  qed
  then show ?thesis by (simp add: ceil_half_up_def)
qed

lemma ceil_half_down_eq: "ceil_half_down d = (d + 1) div 2"
proof -
  have "\<lceil>(real d - 1 / 2) / 2\<rceil> = int ((d + 1) div 2)"
  proof (cases "even d")
    case True
    then obtain q where "d = 2 * q" by (auto elim: evenE)
    then show ?thesis by (simp add: ceiling_eq_iff)
  next
    case False
    then obtain q where "d = 2 * q + 1" by (auto elim: oddE)
    then show ?thesis by (simp add: ceiling_eq_iff)
  qed
  then show ?thesis by (simp add: ceil_half_down_def)
qed

lemma lo_bounds1_props:
  "snd (lo_bounds1 d) \<le> d" "snd (lo_bounds1 d) - fst (lo_bounds1 d) = ceil_half_down d"
  by (simp_all add: lo_bounds1_def Let_def ceil_half_up_eq ceil_half_down_eq)

lemma rect_crop_lo_bounds:
  "rect d X \<Longrightarrow> rect (next_dims d) (crop (fst (lo_bounds d)) (snd (lo_bounds d)) X)"
proof -
  assume a: "rect d X"
  obtain H W where d: "d = (H, W)" by (cases d)
  have "rect (min (snd (lo_bounds1 H)) H - fst (lo_bounds1 H), min (snd (lo_bounds1 W)) W - fst (lo_bounds1 W))
          (crop (fst (lo_bounds1 H), fst (lo_bounds1 W)) (snd (lo_bounds1 H), snd (lo_bounds1 W)) X)"
    using a unfolding d by (rule rect_crop)
  then show ?thesis
    by (simp add: d lo_bounds_def next_dims_def lo_bounds1_props min_absorb1)
qed

lemma level_dims_shift:
  "level_dims ds d (Suc i) = level_dims ds (if ds then next_dims d else d) i"
  by (cases ds; induction i) simp_all

lemma next_dims_pos: "0 < fst d \<Longrightarrow> 0 < snd d \<Longrightarrow> 0 < fst (next_dims d) \<and> 0 < snd (next_dims d)"
  by (simp add: next_dims_def ceil_half_down_eq)

lemma level_dims_pos:
  "0 < fst d \<Longrightarrow> 0 < snd d \<Longrightarrow> 0 < fst (level_dims ds d i) \<and> 0 < snd (level_dims ds d i)"
  by (cases ds; induction i) (simp_all add: next_dims_pos)

lemma shape2_rect: "rect d X \<Longrightarrow> 0 < fst d \<Longrightarrow> shape2 X = d"
  by (cases d) (simp add: shape2_def width_of_rect, simp add: rect_iff)

lemma rect_pointOp: "rect d X \<Longrightarrow> rect d (pointOp tools X Y Xs)"
  by (simp add: pointOp_def rect_pmap)

lemma length_gen_scales [simp]:
  "length (gen_scales tools Y YI cplx ord no ds dims0 n Xr log_rad angle) = n"
  by (induction n arbitrary: Xr log_rad angle) (auto simp: Let_def)

lemma gen_scales_props:
  assumes "rect d log_rad" "rect d angle" "0 < fst d" "0 < snd d" "i < n"
  shows "table_ok ds dims0 no (level_dims ds d i) (level_dims ds d (Suc i))
           (gen_scales tools Y YI cplx ord no ds dims0 n Xr log_rad angle ! i)"
  using assms
proof (induction n arbitrary: Xr log_rad angle d i)
  case 0
  then show ?case by simp
next
  case (Suc n)
  have sh: "shape2 log_rad = d" using Suc.prems(1,3) by (rule shape2_rect)
  show ?case
  proof (cases i)
    case 0
    show ?thesis
    proof (cases ds)
      case True
      have "rect (next_dims d) (crop (fst (lo_bounds d)) (snd (lo_bounds d)) log_rad)"
        using Suc.prems(1) by (rule rect_crop_lo_bounds)
      with True 0 Suc.prems(1,2) sh show ?thesis
        by (simp add: table_ok_def Let_def rect_pointOp)
    next
      case False
      with 0 Suc.prems(1,2) show ?thesis
        by (simp add: table_ok_def Let_def rect_pointOp)
    qed
  next
    case (Suc j)
    with Suc.prems(5) have j: "j < n" by simp
    show ?thesis
    proof (cases ds)
      case True
      let ?lr = "crop (fst (lo_bounds d)) (snd (lo_bounds d)) log_rad"
      let ?an = "crop (fst (lo_bounds d)) (snd (lo_bounds d)) angle"
      have r: "rect (next_dims d) ?lr" "rect (next_dims d) ?an"
        using Suc.prems(1,2) by (simp_all add: rect_crop_lo_bounds)
      have pos: "0 < fst (next_dims d)" "0 < snd (next_dims d)"
        using next_dims_pos[OF Suc.prems(3,4)] by simp_all
      have "table_ok ds dims0 no (level_dims ds (next_dims d) j) (level_dims ds (next_dims d) (Suc j))
              (gen_scales tools Y YI cplx ord no ds dims0 n (map (\<lambda>x. x - log 2 2) Xr) ?lr ?an ! j)"
        using r pos j by (rule Suc.IH)
      then show ?thesis
        using True Suc sh by (simp add: Let_def level_dims_shift del: level_dims.simps)
    next
      case False
      have "table_ok ds dims0 no (level_dims ds d j) (level_dims ds d (Suc j))
              (gen_scales tools Y YI cplx ord no ds dims0 n (map (\<lambda>x. x - log 2 2) Xr) log_rad angle ! j)"
        using Suc.prems(1-4) j by (rule Suc.IH)
      then show ?thesis
        using False Suc by (simp add: Let_def level_dims_shift del: level_dims.simps)
    qed
  qed
qed

lemma length_ramp [simp]: "length (ramp n) = n"
  by (simp add: ramp_def)

lemma rect_angle_grid: "rect shp (angle_grid shp)"
  by (simp add: rect_iff angle_grid_def)

lemma rect_log_rad_grid: "rect shp (log_rad_grid shp)"
proof -
  have upd: "rect shp (pmap f (X[r := (X ! r)[c := v]]))" if X: "rect shp X" for X :: "real plane" and f r c v
  proof (cases "r < length X")
    case True
    then have "length ((X ! r)[c := v]) = snd shp" using X by (simp add: rect_iff)
    moreover have "set (X[r := (X ! r)[c := v]]) \<subseteq> insert ((X ! r)[c := v]) (set X)"
      by (rule set_update_subset_insert)
    ultimately have "\<forall>y\<in>set (X[r := (X ! r)[c := v]]). length y = snd shp"
      using X by (auto simp: rect_iff)
    with X show ?thesis by (simp add: rect_iff pmap_def)
  next
    case False
    then have "X[r := (X ! r)[c := v]] = X" by (simp add: list_update_beyond)
    with X show ?thesis by (simp add: rect_pmap)
  qed
  have base: "rect shp (map (\<lambda>y. map (\<lambda>x. sqrt (x\<^sup>2 + y\<^sup>2)) (ramp (snd shp))) (ramp (fst shp)))"
    by (simp add: rect_iff)
  show ?thesis unfolding log_rad_grid_def Let_def by (rule upd) (rule base)
qed

lemma wf_build:
  assumes "0 < fst shp" "0 < snd shp"
  shows "wf_pyramid ((build tools shp ns ord tw cplx ds tight)\<lparr>pyr_size := sz\<rparr>)"
proof -
  let ?rc = "rcosFn tools (real_of_int tw) (- real_of_int tw / 2)"
  let ?Y = "map sqrt (snd ?rc)"
  let ?YI = "map (\<lambda>y. sqrt (1 - y\<^sup>2)) ?Y"
  let ?tabs = "gen_scales tools ?Y ?YI cplx ord (nat (ord + 1)) ds shp (nat ns) (fst ?rc)
                 (log_rad_grid shp) (angle_grid shp)"
  have t: "table_ok ds shp (nat (ord + 1)) (level_dims ds shp i) (level_dims ds shp (Suc i)) (?tabs ! i)"
    if "i < nat ns" for i
    using rect_log_rad_grid rect_angle_grid assms that by (rule gen_scales_props)
  show ?thesis
    unfolding wf_pyramid_def build_def Let_def
    using assms t
    by (simp add: rect_pointOp rect_log_rad_grid table_ok_def del: level_dims.simps)
qed

lemma set_od_set: "set (od_set k v d) \<subseteq> insert (k, v) (set d)"
  by (auto simp: od_set_def split: if_splits)

lemma nth_py_ok [simp]: "i < length xs \<Longrightarrow> nth_py xs i = Inr (xs ! i)"
  by (simp add: nth_py_def)

lemma has_shape_band_of:
  assumes "wf_pyramid p" "i < nat (num_scales p)" "b < num_orientations p"
    and "has_shape (B, C, level_dims (downsample p) (image_shape p) i) l"
  shows "has_shape (B, C, key_dims p (Band i b)) (band_of p l i b)"
proof -
  obtain H W where d: "level_dims (downsample p) (image_shape p) i = (H, W)" by (cases "level_dims (downsample p) (image_shape p) i")
  have am: "rect (H, W) (anglemasks p ! i ! b)" and hm: "rect (H, W) (himasks p ! i)"
    using assms(1-3) d by (auto simp: wf_pyramid_def)
  have "has_shape (B, C, H, W) (scale_c (power_int (- \<i>) (order p)) l)"
    using assms(4) d by (simp add: has_shape_scale_c)
  then have "has_shape (B, C, H, W) (mmul (scale_c (power_int (- \<i>) (order p)) l) (anglemasks p ! i ! b))"
    using am by (rule mul_mask_ok(2))
  then have "has_shape (B, C, H, W) (mmul (mmul (scale_c (power_int (- \<i>) (order p)) l) (anglemasks p ! i ! b)) (himasks p ! i))"
    using hm by (rule mul_mask_ok(2))
  then show ?thesis
    by (simp add: band_of_def key_dims_def key_level_def d has_shape_store_band has_shape_ifft2 has_shape_ifftshift)
qed

lemma forward_bands_inv:
  assumes wf: "wf_pyramid p" and i: "i < nat (num_scales p)"
    and l: "has_shape (B, C, level_dims (downsample p) (image_shape p) i) l"
    and Q: "\<And>b. b < num_orientations p \<Longrightarrow> Q (Band i b) (band_of p l i b)"
    and bs: "\<forall>b\<in>set bs. b < num_orientations p"
    and c: "\<forall>(k, t)\<in>set (fst cs). has_shape (B, C, key_dims p k) t \<and> Q k t"
  shows "\<exists>cs'. forward_bands p l (himasks p ! i) i bs cs = Inr cs' \<and>
           (\<forall>(k, t)\<in>set (fst cs'). has_shape (B, C, key_dims p k) t \<and> Q k t)"
  using bs c
proof (induction bs arbitrary: cs)
  case Nil
  then show ?case by simp
next
  case (Cons b bs)
  then have b: "b < num_orientations p" by simp
  obtain H W where d: "level_dims (downsample p) (image_shape p) i = (H, W)" by (cases "level_dims (downsample p) (image_shape p) i")
  have len: "i < length (anglemasks p)" "b < length (anglemasks p ! i)"
    using wf i b by (auto simp: wf_pyramid_def)
  have am: "rect (H, W) (anglemasks p ! i ! b)" and hm: "rect (H, W) (himasks p ! i)"
    using wf i b d by (auto simp: wf_pyramid_def)
  let ?t0 = "scale_c (power_int (- \<i>) (order p)) l"
  have s0: "has_shape (B, C, H, W) ?t0" using l d by (simp add: has_shape_scale_c)
  note m1 = mul_mask_ok[OF s0 am]
  note m2 = mul_mask_ok[OF m1(2) hm]
  let ?cs1 = "(od_set (Band i b) (band_of p l i b) (fst cs),
               od_set (Band i b) (spatial (band_of p l i b)) (snd cs))"
  have step: "forward_bands p l (himasks p ! i) i (b # bs) cs = forward_bands p l (himasks p ! i) i bs ?cs1"
    using len by (simp add: m1(1) m2(1) Let_def band_of_def)
  have "\<forall>(k, t)\<in>set (fst ?cs1). has_shape (B, C, key_dims p k) t \<and> Q k t"
    using set_od_set[of "Band i b" "band_of p l i b" "fst cs"] Cons.prems(2)
      has_shape_band_of[OF wf i b l] Q[OF b] by auto
  with Cons.IH[of ?cs1] Cons.prems(1) show ?case unfolding step by simp
qed

lemma has_shape_crop4_lo:
  "has_shape (B, C, d) t \<Longrightarrow> has_shape (B, C, next_dims d) (crop4 (fst (lo_bounds d)) (snd (lo_bounds d)) t)"
proof -
  assume a: "has_shape (B, C, d) t"
  obtain H W where d: "d = (H, W)" by (cases d)
  obtain H' W' where d': "next_dims d = (H', W')" by (cases "next_dims d")
  have "has_shape (B, C, H', W') (Tensor (dtype_of t) (tmap (crop (fst (lo_bounds d)) (snd (lo_bounds d))) (dat t)))"
    using a[unfolded d]
  proof (rule has_shape_tmap)
    fix X assume "rect (H, W) X"
    then have "rect d X" by (simp only: d)
    then have "rect (next_dims d) (crop (fst (lo_bounds d)) (snd (lo_bounds d)) X)"
      by (rule rect_crop_lo_bounds)
    then show "rect (H', W') (crop (fst (lo_bounds d)) (snd (lo_bounds d)) X)"
      by (simp only: d')
  qed
  then show ?thesis by (simp add: crop4_def d')
qed

lemma next_lodft_ok:
  assumes wf: "wf_pyramid p" and i: "i < nat (num_scales p)"
    and l: "has_shape (B, C, level_dims (downsample p) (image_shape p) i) l"
  shows "next_lodft p i l = Inr (lodft_next p i l)"
    and "has_shape (B, C, level_dims (downsample p) (image_shape p) (Suc i)) (lodft_next p i l)"
proof -
  let ?d = "level_dims (downsample p) (image_shape p)"
  obtain H' W' where d': "?d (Suc i) = (H', W')" by (cases "?d (Suc i)")
  have lm: "rect (H', W') (lomasks p ! i)" and len: "i < length (lomasks p)" "i < length (loindices p)"
    and idx: "downsample p \<Longrightarrow> loindices p ! i = lo_bounds (?d i)"
    using wf i d' by (auto simp: wf_pyramid_def)
  show "next_lodft p i l = Inr (lodft_next p i l)"
    and "has_shape (B, C, ?d (Suc i)) (lodft_next p i l)"
  proof -
    let ?src = "if downsample p then crop4 (fst (loindices p ! i)) (snd (loindices p ! i)) l else l"
    have src: "has_shape (B, C, H', W') ?src"
    proof (cases "downsample p")
      case True
      have "has_shape (B, C, next_dims (?d i)) (crop4 (fst (lo_bounds (?d i))) (snd (lo_bounds (?d i))) l)"
        using l by (rule has_shape_crop4_lo)
      moreover have "next_dims (?d i) = (H', W')" using d' True by simp
      ultimately show ?thesis using True idx by simp
    next
      case False
      moreover have "?d i = (H', W')" using d' False by simp
      ultimately show ?thesis using l by simp
    qed
    note m = mul_mask_ok[OF src lm]
    have e: "lodft_next p i l = mmul ?src (lomasks p ! i)"
      by (simp add: lodft_next_def)
    show "next_lodft p i l = Inr (lodft_next p i l)"
      unfolding e using m(1) len by (cases "downsample p") (simp_all add: next_lodft_def)
    show "has_shape (B, C, ?d (Suc i)) (lodft_next p i l)"
      unfolding e d' by (rule m(2))
  qed
qed

lemma forward_scales_inv:
  assumes wf: "wf_pyramid p"
    and Rn: "\<And>i l. i < nat (num_scales p) \<Longrightarrow>
               has_shape (B, C, level_dims (downsample p) (image_shape p) i) l \<Longrightarrow> R l \<Longrightarrow> R (lodft_next p i l)"
    and Qb: "\<And>i b l. i < nat (num_scales p) \<Longrightarrow> b < num_orientations p \<Longrightarrow>
               has_shape (B, C, level_dims (downsample p) (image_shape p) i) l \<Longrightarrow> R l \<Longrightarrow>
               Q (Band i b) (band_of p l i b)"
  shows "i0 \<le> nat (num_scales p) \<Longrightarrow>
         has_shape (B, C, level_dims (downsample p) (image_shape p) i0) l \<Longrightarrow> R l \<Longrightarrow>
         \<forall>(k, t)\<in>set (fst cs). has_shape (B, C, key_dims p k) t \<and> Q k t \<Longrightarrow>
         \<exists>l' cs'. forward_scales p scs [i0..<nat (num_scales p)] (l, cs) = Inr (l', cs') \<and>
           has_shape (B, C, level_dims (downsample p) (image_shape p) (nat (num_scales p))) l' \<and> R l' \<and>
           (\<forall>(k, t)\<in>set (fst cs'). has_shape (B, C, key_dims p k) t \<and> Q k t)"
proof (induction "nat (num_scales p) - i0" arbitrary: i0 l cs)
  case 0
  then have "i0 = nat (num_scales p)" by simp
  with 0 show ?case by simp
next
  case (Suc m)
  then have i: "i0 < nat (num_scales p)" by simp
  then have upt: "[i0..<nat (num_scales p)] = i0 # [Suc i0..<nat (num_scales p)]"
    by (simp add: upt_conv_Cons)
  have hl: "i0 < length (himasks p)" using wf i by (simp add: wf_pyramid_def)
  obtain cs1 where cs1: "(if Level (int i0) \<in> set scs then
              ebind (nth_py (himasks p) i0) (\<lambda>himask.
                forward_bands p l himask i0 [0..<num_orientations p] cs)
            else Inr cs) = Inr cs1"
    and inv1: "\<forall>(k, t)\<in>set (fst cs1). has_shape (B, C, key_dims p k) t \<and> Q k t"
  proof (cases "Level (int i0) \<in> set scs")
    case True
    from forward_bands_inv[OF wf i Suc.prems(2), of Q "[0..<num_orientations p]" cs]
      Qb[OF i _ Suc.prems(2,3)] Suc.prems(4)
    obtain cs' where "forward_bands p l (himasks p ! i0) i0 [0..<num_orientations p] cs = Inr cs'"
      "\<forall>(k, t)\<in>set (fst cs'). has_shape (B, C, key_dims p k) t \<and> Q k t"
      by auto
    with True hl that show ?thesis by simp
  next
    case False
    with Suc.prems(4) that show ?thesis by simp
  qed
  note nl = next_lodft_ok[OF wf i Suc.prems(2)]
  have "\<exists>l' cs'. forward_scales p scs [Suc i0..<nat (num_scales p)] (lodft_next p i0 l, cs1) = Inr (l', cs') \<and>
           has_shape (B, C, level_dims (downsample p) (image_shape p) (nat (num_scales p))) l' \<and> R l' \<and>
           (\<forall>(k, t)\<in>set (fst cs'). has_shape (B, C, key_dims p k) t \<and> Q k t)"
  proof (rule Suc.hyps(1))
    show "m = nat (num_scales p) - Suc i0" using Suc.hyps(2) by simp
    show "Suc i0 \<le> nat (num_scales p)" using i by simp
    show "has_shape (B, C, level_dims (downsample p) (image_shape p) (Suc i0)) (lodft_next p i0 l)" by (rule nl(2))
    show "R (lodft_next p i0 l)" using i Suc.prems(2,3) by (rule Rn)
    show "\<forall>(k, t)\<in>set (fst cs1). has_shape (B, C, key_dims p k) t \<and> Q k t" by (rule inv1)
  qed
  then obtain l' cs' where r: "forward_scales p scs [Suc i0..<nat (num_scales p)] (lodft_next p i0 l, cs1) = Inr (l', cs')"
    and props: "has_shape (B, C, level_dims (downsample p) (image_shape p) (nat (num_scales p))) l'" "R l'"
      "\<forall>(k, t)\<in>set (fst cs'). has_shape (B, C, key_dims p k) t \<and> Q k t"
    by blast
  let ?stage = "if Level (int i0) \<in> set scs then
              ebind (nth_py (himasks p) i0) (\<lambda>himask.
                forward_bands p l himask i0 [0..<num_orientations p] cs)
            else Inr cs"
  have "forward_scales p scs [i0..<nat (num_scales p)] (l, cs) =
          ebind ?stage (\<lambda>cs. ebind (next_lodft p i0 l) (\<lambda>lodft.
            forward_scales p scs [Suc i0..<nat (num_scales p)] (lodft, cs)))"
    unfolding upt by simp
  also have "\<dots> = Inr (l', cs')"
    by (simp only: cs1 ebind_simps nl(1) r)
  finally show ?case using props by blast
qed

lemma assert_scales:
  "scales_valid p scs \<Longrightarrow>
   \<not> (scale_ints scs \<noteq> [] \<and> \<not> (Max (set (scale_ints scs)) < num_scales p \<and> 0 \<le> Min (set (scale_ints scs))))"
  by (auto simp: scales_valid_def list_all_iff)

lemma forward_inv:
  assumes wf: "wf_pyramid p"
    and x: "has_shape (B, C, image_shape p) x"
    and valid: "scales_valid p (effective_scales p scales_arg)"
    and R0: "R (mmul (fftshift (fft2 (fft_norm p) x)) (lo0mask p))"
    and Qh: "Q Residual_highpass (hi_of p x)"
    and Rn: "\<And>i l. i < nat (num_scales p) \<Longrightarrow>
               has_shape (B, C, level_dims (downsample p) (image_shape p) i) l \<Longrightarrow> R l \<Longrightarrow> R (lodft_next p i l)"
    and Qb: "\<And>i b l. i < nat (num_scales p) \<Longrightarrow> b < num_orientations p \<Longrightarrow>
               has_shape (B, C, level_dims (downsample p) (image_shape p) i) l \<Longrightarrow> R l \<Longrightarrow>
               Q (Band i b) (band_of p l i b)"
    and Ql: "\<And>l. has_shape (B, C, level_dims (downsample p) (image_shape p) (nat (num_scales p))) l \<Longrightarrow> R l \<Longrightarrow>
               Q Residual_lowpass (lo_of p l)"
  shows "\<exists>c sz. forward p x scales_arg = Inr (c, p\<lparr>pyr_size := sz\<rparr>) \<and>
           (\<forall>(k, t)\<in>set c. has_shape (B, C, key_dims p k) t \<and> Q k t)"
proof -
  let ?scs = "effective_scales p scales_arg"
  let ?n = "nat (num_scales p)"
  let ?d = "level_dims (downsample p) (image_shape p)"
  obtain H W where shp: "image_shape p = (H, W)" by (cases "image_shape p")
  let ?imdft = "fftshift (fft2 (fft_norm p) x)"
  have im: "has_shape (B, C, H, W) ?imdft"
    using x shp by (simp add: has_shape_fftshift has_shape_fft2)
  have masks: "rect (H, W) (hi0mask p)" "rect (H, W) (lo0mask p)"
    using wf shp by (simp_all add: wf_pyramid_def)
  note mh = mul_mask_ok[OF im masks(1)]
  note ml = mul_mask_ok[OF im masks(2)]
  let ?cs0 = "if Resid_highpass \<in> set ?scs
              then (od_set Residual_highpass (hi_of p x) [],
                    od_set Residual_highpass (spatial (hi_of p x)) (pyr_size p))
              else ([], pyr_size p)"
  have hi_shape: "has_shape (B, C, key_dims p Residual_highpass) (hi_of p x)"
    using mh(2) by (simp add: hi_of_def key_dims_def key_level_def shp has_shape_real_part has_shape_ifft2 has_shape_ifftshift)
  have inv0: "\<forall>(k, t)\<in>set (fst ?cs0). has_shape (B, C, key_dims p k) t \<and> Q k t"
    using hi_shape Qh by (auto simp: od_set_def od_keys_def)
  have l0: "has_shape (B, C, ?d 0) (mmul ?imdft (lo0mask p))"
    using ml(2) shp by simp
  from forward_scales_inv[of p B C R Q 0 "mmul ?imdft (lo0mask p)" ?cs0 ?scs, OF wf Rn Qb _ l0 R0 inv0]
  obtain l' cs' where fs: "forward_scales p ?scs [0..<?n] (mmul ?imdft (lo0mask p), ?cs0) = Inr (l', cs')"
    and l': "has_shape (B, C, ?d ?n) l'" "R l'"
    and inv1: "\<forall>(k, t)\<in>set (fst cs'). has_shape (B, C, key_dims p k) t \<and> Q k t"
    by auto
  let ?cs2 = "if Resid_lowpass \<in> set ?scs
              then (od_set Residual_lowpass (lo_of p l') (fst cs'),
                    od_set Residual_lowpass (spatial (lo_of p l')) (snd cs'))
              else cs'"
  have lo_shape: "has_shape (B, C, key_dims p Residual_lowpass) (lo_of p l')"
  proof -
    obtain H' W' where dn: "?d ?n = (H', W')" by (cases "?d ?n")
    with l'(1) show ?thesis
      by (simp add: lo_of_def key_dims_def key_level_def has_shape_real_part has_shape_ifft2 has_shape_ifftshift)
  qed
  have inv2: "\<forall>(k, t)\<in>set (fst ?cs2). has_shape (B, C, key_dims p k) t \<and> Q k t"
    using set_od_set[of Residual_lowpass "lo_of p l'" "fst cs'"] inv1 lo_shape Ql[OF l'] by auto
  note nassert = assert_scales[OF valid]
  have "forward p x scales_arg = Inr (fst ?cs2, p\<lparr>pyr_size := snd ?cs2\<rparr>)"
  proof (cases "Resid_highpass \<in> set ?scs"; cases "Resid_lowpass \<in> set ?scs")
    assume a: "Resid_highpass \<in> set ?scs" "Resid_lowpass \<in> set ?scs"
    with fs have "forward_scales p ?scs [0..<?n] (mmul ?imdft (lo0mask p),
        od_set Residual_highpass (hi_of p x) [], od_set Residual_highpass (spatial (hi_of p x)) (pyr_size p)) = Inr (l', cs')"
      by simp
    with a nassert show ?thesis
      by (simp add: forward_def Let_def effective_scales_def[symmetric] mh(1) ml(1) hi_of_def lo_of_def)
  next
    assume a: "Resid_highpass \<in> set ?scs" "Resid_lowpass \<notin> set ?scs"
    with fs have "forward_scales p ?scs [0..<?n] (mmul ?imdft (lo0mask p),
        od_set Residual_highpass (hi_of p x) [], od_set Residual_highpass (spatial (hi_of p x)) (pyr_size p)) = Inr (l', cs')"
      by simp
    with a nassert show ?thesis
      by (simp add: forward_def Let_def effective_scales_def[symmetric] mh(1) ml(1) hi_of_def lo_of_def)
  next
    assume a: "Resid_highpass \<notin> set ?scs" "Resid_lowpass \<in> set ?scs"
    with fs have "forward_scales p ?scs [0..<?n] (mmul ?imdft (lo0mask p), [], pyr_size p) = Inr (l', cs')"
      by simp
    with a nassert show ?thesis
      by (simp add: forward_def Let_def effective_scales_def[symmetric] mh(1) ml(1) hi_of_def lo_of_def)
  next
    assume a: "Resid_highpass \<notin> set ?scs" "Resid_lowpass \<notin> set ?scs"
    with fs have "forward_scales p ?scs [0..<?n] (mmul ?imdft (lo0mask p), [], pyr_size p) = Inr (l', cs')"
      by simp
    with a nassert show ?thesis
      by (simp add: forward_def Let_def effective_scales_def[symmetric] mh(1) ml(1) hi_of_def lo_of_def)
  qed
  with inv2 show ?thesis by blast
qed

lemma constructed_wf: "constructed p \<Longrightarrow> wf_pyramid p"
  by (erule constructed_build) (simp add: wf_build)

lemma requested_bands_all:
  "(\<forall>i\<in>set is. Level (int i) \<in> set scs) \<Longrightarrow>
   requested_bands p scs is = concat (map (\<lambda>i. map (Band i) [0..<num_orientations p]) is)"
  by (induction "is") (simp_all add: requested_bands_def)

lemma requested_keys_all:
  assumes "constructed p" "requests_all p scales_arg"
  shows "requested_keys p (effective_scales p scales_arg) = all_keys p"
proof -
  let ?scs = "effective_scales p scales_arg"
  have "Resid_highpass \<in> set ?scs \<and> Resid_lowpass \<in> set ?scs \<and>
        (\<forall>i\<in>set [0..<nat (num_scales p)]. Level (int i) \<in> set ?scs)"
    using assms(2) constructed_scales[OF assms(1)]
    by (auto simp: requests_all_def effective_scales_def list_all_iff)
  then show ?thesis
    by (simp add: requested_keys_def all_keys_def requested_bands_all)
qed

lemma scale_ints_map_Level: "scale_ints (map (\<lambda>i. Level (f i)) xs) = map f xs"
  by (induction xs) (simp_all add: scale_ints_def)

lemma scale_ints_append: "scale_ints (xs @ ys) = scale_ints xs @ scale_ints ys"
  by (simp add: scale_ints_def)

lemma scales_valid_default: "constructed p \<Longrightarrow> scales_valid p (effective_scales p [])"
  using scale_ints_map_Level[of int "rev [0..<nat (num_scales p)]"]
  by (auto simp: scales_valid_def effective_scales_def constructed_scales scale_ints_append
      rev_map list_all_iff scale_ints_def)

lemma forward_total:
  assumes "constructed p" "has_shape (B, C, image_shape p) x"
    "scales_valid p (effective_scales p scales_arg)"
  shows "\<exists>c sz. forward p x scales_arg = Inr (c, p\<lparr>pyr_size := sz\<rparr>) \<and>
           (\<forall>(k, t)\<in>set c. has_shape (B, C, key_dims p k) t)"
  using forward_inv[OF constructed_wf[OF assms(1)] assms(2,3), of "\<lambda>_. True" "\<lambda>_ _. True"]
  by simp

lemma length_all_keys: "length (all_keys p) = nat (num_scales p) * num_orientations p + 2"
  by (simp add: all_keys_def length_concat comp_def sum_list_triv)

lemma max_ht_pow2: "max_ht (2 ^ k, 2 ^ k) = Some (int k - 2)"
proof -
  have "log 2 (real ((2::nat) ^ k)) = real k" by (simp add: log_pow_cancel)
  then show ?thesis by (simp add: max_ht_def)
qed

lemma max_ht_64: "max_ht (64, 64) = Some 4"
  using max_ht_pow2[of 6] by simp

lemma max_ht_128: "max_ht (128, 128) = Some 5"
  using max_ht_pow2[of 7] by simp

lemma max_ht_4: "max_ht (4, 4) = Some 0"
  using max_ht_pow2[of 2] by simp

lemma has_shape_zero_image: "has_shape (B, C, H, W) (zero_image B C H W)"
  by (simp add: has_shape_iff zero_image_def rect_iff)

text \<open>
  Claim C9. Whatever the order and the transition width, the constructor builds the pyramid
  as soon as the height is accepted: an order outside \<open>[1, 15]\<close> is clamped into that
  range and a width that is not positive becomes 1, each with its warning. A height
  greater than \<open>floor (log2 (min H W)) - 2\<close> (any height at all when a side is 0) makes
  the constructor raise \<^verbatim>\<open>Exception\<close>.
\<close>

theorem init_edge_cases:
  "(choose_num_scales shp h = Inr ns \<longrightarrow>
      (\<exists>p ws. init tools shp h ord tw cplx ds tight = Inr (p, ws) \<and>
         order p = min (max ord 1) 15 \<and> 1 \<le> order p \<and> order p \<le> 15 \<and>
         num_orientations p = nat (order p + 1) \<and>
         (ord < 1 \<or> 15 < ord \<longrightarrow> Order_truncated \<in> set ws) \<and>
         twidth p = (if tw \<le> 0 then 1 else tw) \<and> 0 < twidth p \<and>
         (tw \<le> 0 \<longrightarrow> Twidth_reset \<in> set ws))) \<and>
   ((case max_ht shp of None \<Rightarrow> True | Some m \<Rightarrow> m < k) \<longrightarrow>
      init tools shp (Height k) ord tw cplx ds tight = Inl Exception)"
  by (auto simp: init_def build_def Let_def clamp_order_def clamp_twidth_def init_warnings_def
      choose_num_scales_def split: option.splits)

theorem init_edge_cases_witness:
  "choose_num_scales (64, 64) (Height 3) = Inr 3 \<and>
   (\<exists>p ws. init zero_tools (64, 64) (Height 3) 20 0 False True False = Inr (p, ws) \<and>
      order p = 15 \<and> num_orientations p = 16 \<and> Order_truncated \<in> set ws \<and>
      twidth p = 1 \<and> Twidth_reset \<in> set ws) \<and>
   max_ht (64, 64) = Some 4 \<and>
   init zero_tools (64, 64) (Height 5) 20 0 False True False = Inl Exception"
proof -
  have c: "choose_num_scales (64, 64) (Height 3) = Inr 3"
    by (simp add: choose_num_scales_def max_ht_64)
  from init_edge_cases[of "(64, 64)" "Height 3" 3 zero_tools 20 0 False True False 5] c max_ht_64
  show ?thesis by auto
qed

lemma forward_state: "forward p x scs = Inr (c, p') \<Longrightarrow> \<exists>sz. p' = p\<lparr>pyr_size := sz\<rparr>"
  unfolding forward_def Let_def by (auto simp: ebind_eq_Inr split: if_splits)

lemma init_64:
  "init tools (64, 64) (Height 3) 3 tw False True tight =
     Inr (build tools (64, 64) 3 3 (clamp_twidth tw) False True tight, init_warnings (64, 64) 3 tw)"
  by (simp add: init_def choose_num_scales_def max_ht_64 clamp_order_def)

lemma constructed_init: "init tools shp h ord tw cplx ds tight = Inr (p, ws) \<Longrightarrow> constructed p"
proof -
  assume a: "init tools shp h ord tw cplx ds tight = Inr (p, ws)"
  have "p = p\<lparr>pyr_size := pyr_size p\<rparr>" by simp
  with a show ?thesis unfolding constructed_def by blast
qed

text \<open>
  Claim C3. When \<^verbatim>\<open>forward\<close> is asked for all scales (the empty list, or a list that
  names both residuals and every scale) and returns, the keys of the coefficients are, in
  this order, \<^verbatim>\<open>residual_highpass\<close>, the pairs (scale, orientation) with the scales
  from 0 upwards and the orientations from 0 upwards within each scale, and
  \<^verbatim>\<open>residual_lowpass\<close>; on an image of the pyramid's size it does return. For the
  pyramid of a 64 by 64 image with height 3 and order 3, without complex coefficients and
  with downsampling, these are 14 keys.
\<close>

theorem forward_key_order:
  "(constructed p \<and> requests_all p scs \<and> forward p x scs = Inr (c, p') \<longrightarrow> od_keys c = all_keys p) \<and>
   (constructed p \<and> requests_all p scs \<and> scales_valid p (effective_scales p scs) \<and>
    has_shape (B, C, image_shape p) x \<longrightarrow>
      (\<exists>c' p''. forward p x scs = Inr (c', p'') \<and> od_keys c' = all_keys p)) \<and>
   (init tools (64, 64) (Height 3) 3 tw False True tight = Inr (q, ws) \<and> has_shape (B, C, 64, 64) y \<longrightarrow>
      (\<exists>c' q'. forward q y [] = Inr (c', q') \<and> od_keys c' = all_keys q \<and> length (od_keys c') = 14))"
proof (intro conjI impI)
  assume "constructed p \<and> requests_all p scs \<and> forward p x scs = Inr (c, p')"
  then show "od_keys c = all_keys p"
    using forward_keys(1)[of p x scs c p'] requested_keys_all[of p scs] by simp
next
  assume a: "constructed p \<and> requests_all p scs \<and> scales_valid p (effective_scales p scs) \<and>
    has_shape (B, C, image_shape p) x"
  then obtain c' sz where f: "forward p x scs = Inr (c', p\<lparr>pyr_size := sz\<rparr>)"
    using forward_total[of p B C x scs] by blast
  with a have "od_keys c' = all_keys p"
    using forward_keys(1)[OF f] requested_keys_all[of p scs] by simp
  with f show "\<exists>c' p''. forward p x scs = Inr (c', p'') \<and> od_keys c' = all_keys p" by blast
next
  assume a: "init tools (64, 64) (Height 3) 3 tw False True tight = Inr (q, ws) \<and> has_shape (B, C, 64, 64) y"
  then have q: "q = build tools (64, 64) 3 3 (clamp_twidth tw) False True tight"
    by (simp add: init_64)
  have cq: "constructed q" using a constructed_init by blast
  have fields: "image_shape q = (64, 64)" "num_scales q = 3" "num_orientations q = 4"
    by (simp_all add: q build_def Let_def)
  have ra: "requests_all q []" by (simp add: requests_all_def)
  from a fields have "has_shape (B, C, image_shape q) y" by simp
  then obtain c' sz where f: "forward q y [] = Inr (c', q\<lparr>pyr_size := sz\<rparr>)"
    using forward_total[OF cq _ scales_valid_default[OF cq]] by blast
  have k: "od_keys c' = all_keys q"
    using forward_keys(1)[OF f] requested_keys_all[OF cq ra] by simp
  have "length (od_keys c') = 14"
    unfolding k length_all_keys fields by simp
  with f k show "\<exists>c' q'. forward q y [] = Inr (c', q') \<and> od_keys c' = all_keys q \<and> length (od_keys c') = 14"
    by blast
qed

lemma init_pyramid_64:
  "init zero_tools (64, 64) (Height 3) 3 1 False True False = Inr (pyramid_64, [])"
  by (simp add: init_64 pyramid_64_def clamp_twidth_def init_warnings_def)

lemma constructed_pyramid_64: "constructed pyramid_64"
  using init_pyramid_64 by (rule constructed_init)

lemma pyramid_64_fields:
  "image_shape pyramid_64 = (64, 64)" "num_scales pyramid_64 = 3" "num_orientations pyramid_64 = 4"
  by (simp_all add: pyramid_64_def build_def Let_def)

theorem forward_key_order_witness:
  "constructed pyramid_64 \<and> requests_all pyramid_64 [] \<and>
   scales_valid pyramid_64 (effective_scales pyramid_64 []) \<and>
   has_shape (1, 1, image_shape pyramid_64) (zero_image 1 1 64 64) \<and>
   init zero_tools (64, 64) (Height 3) 3 1 False True False = Inr (pyramid_64, []) \<and>
   (\<exists>c p'. forward pyramid_64 (zero_image 1 1 64 64) [] = Inr (c, p') \<and>
      od_keys c = all_keys pyramid_64 \<and> length (od_keys c) = 14)"
proof -
  have h: "has_shape (1, 1, 64, 64) (zero_image 1 1 64 64)" by (rule has_shape_zero_image)
  have ra: "requests_all pyramid_64 []" by (simp add: requests_all_def)
  note sv = scales_valid_default[OF constructed_pyramid_64]
  from forward_key_order[of pyramid_64 "[]" "zero_image 1 1 64 64" "[]" pyramid_64 1 1
      zero_tools 1 False pyramid_64 "[]" "zero_image 1 1 64 64"]
  have "\<exists>c' q'. forward pyramid_64 (zero_image 1 1 64 64) [] = Inr (c', q') \<and>
          od_keys c' = all_keys pyramid_64 \<and> length (od_keys c') = 14"
    using init_pyramid_64 h by blast
  with constructed_pyramid_64 ra sv h init_pyramid_64 show ?thesis
    by (simp add: pyramid_64_fields)
qed

lemma requested_keys_mem:
  "k \<in> set (requested_keys p scs) \<Longrightarrow>
   (k = Residual_highpass \<and> Resid_highpass \<in> set scs) \<or>
   (k = Residual_lowpass \<and> Resid_lowpass \<in> set scs) \<or>
   (\<exists>i b. k = Band i b \<and> Level (int i) \<in> set scs)"
  by (auto simp: requested_keys_def requested_bands_def split: if_splits)

lemma all_keys_update [simp]: "all_keys (p\<lparr>pyr_size := sz\<rparr>) = all_keys p"
  by (simp add: all_keys_def)

text \<open>
  Claim C4. \<^verbatim>\<open>recon_pyr\<close> raises \<^verbatim>\<open>Exception\<close> whenever a key of a full
  \<^verbatim>\<open>forward\<close> call is missing from the coefficients, whatever levels and bands are to
  be reconstructed; in particular on the coefficients of a \<^verbatim>\<open>forward\<close> call that did
  not ask for all scales. The test comes first in \<open>recon_pyr\<close>, before the keys of the
  reconstruction are computed.
\<close>

theorem recon_pyr_requires_all_keys:
  "(constructed p \<and> k \<in> set (all_keys p) \<and> k \<notin> set (od_keys c) \<longrightarrow>
      recon_pyr p c levels bands tw = Inl Exception) \<and>
   (constructed p \<and> forward p x scs = Inr (c', p') \<and> \<not> requests_all p scs \<longrightarrow>
      recon_pyr p' c' levels bands tw = Inl Exception)"
proof (intro conjI impI)
  assume "constructed p \<and> k \<in> set (all_keys p) \<and> k \<notin> set (od_keys c)"
  then show "recon_pyr p c levels bands tw = Inl Exception"
    using recon_pyr_missing by blast
next
  assume a: "constructed p \<and> forward p x scs = Inr (c', p') \<and> \<not> requests_all p scs"
  then have cp: "constructed p" and f: "forward p x scs = Inr (c', p')" and nr: "\<not> requests_all p scs"
    by simp_all
  from nr have ne: "scs \<noteq> []" by (auto simp: requests_all_def)
  then have keys: "od_keys c' = requested_keys p scs"
    using forward_keys(1)[OF f] by (simp add: effective_scales_def)
  from forward_state[OF f] obtain sz where p': "p' = p\<lparr>pyr_size := sz\<rparr>" by blast
  have cp': "constructed p'" unfolding p' using cp by (rule constructed_update)
  from nr ne consider "Resid_highpass \<notin> set scs" | "Resid_lowpass \<notin> set scs"
    | i where "i < nat (num_scales p)" "Level (int i) \<notin> set scs"
    by (auto simp: requests_all_def list_all_iff)
  then obtain k' where "k' \<in> set (all_keys p)" "k' \<notin> set (od_keys c')"
  proof cases
    case 1
    then have "Residual_highpass \<notin> set (od_keys c')"
      unfolding keys using requested_keys_mem[of Residual_highpass p scs] by auto
    then show ?thesis using that[of Residual_highpass] by (simp add: all_keys_def)
  next
    case 2
    then have "Residual_lowpass \<notin> set (od_keys c')"
      unfolding keys using requested_keys_mem[of Residual_lowpass p scs] by auto
    then show ?thesis using that[of Residual_lowpass] by (simp add: all_keys_def)
  next
    case 3
    then have "Band i 0 \<notin> set (od_keys c')"
      unfolding keys using requested_keys_mem[of "Band i 0" p scs] by auto
    moreover have "Band i 0 \<in> set (all_keys p)"
      using 3(1) constructed_orientations[OF cp] by (auto simp: all_keys_def intro!: bexI[of _ i])
    ultimately show ?thesis using that[of "Band i 0"] by simp
  qed
  then show "recon_pyr p' c' levels bands tw = Inl Exception"
    using recon_pyr_missing[OF cp', of k' c'] by (simp add: p')
qed

theorem recon_pyr_requires_all_keys_witness:
  "constructed pyramid_64 \<and> Residual_highpass \<in> set (all_keys pyramid_64) \<and>
   Residual_highpass \<notin> set (od_keys ([] :: coeffs)) \<and>
   recon_pyr pyramid_64 [] All_levels All_bands 1 = Inl Exception \<and>
   \<not> requests_all pyramid_64 [Level 0] \<and>
   (\<exists>c p'. forward pyramid_64 (zero_image 1 1 64 64) [Level 0] = Inr (c, p') \<and>
      recon_pyr p' c (One_level (Level 0)) All_bands 1 = Inl Exception)"
proof -
  have m: "Residual_highpass \<in> set (all_keys pyramid_64)" by (simp add: all_keys_def)
  have e: "Residual_highpass \<notin> set (od_keys ([] :: coeffs))" by (simp add: od_keys_def)
  have nr: "\<not> requests_all pyramid_64 [Level 0]" by (simp add: requests_all_def)
  have sv: "scales_valid pyramid_64 (effective_scales pyramid_64 [Level 0])"
    by (simp add: scales_valid_def effective_scales_def scale_ints_def pyramid_64_fields)
  have "has_shape (1, 1, image_shape pyramid_64) (zero_image 1 1 64 64)"
    by (simp add: pyramid_64_fields has_shape_zero_image)
  from forward_total[OF constructed_pyramid_64 this sv]
  obtain c sz where f: "forward pyramid_64 (zero_image 1 1 64 64) [Level 0] = Inr (c, pyramid_64\<lparr>pyr_size := sz\<rparr>)"
    by blast
  from recon_pyr_requires_all_keys[of pyramid_64 Residual_highpass "[]" All_levels All_bands 1
      "zero_image 1 1 64 64" "[Level 0]" c "pyramid_64\<lparr>pyr_size := sz\<rparr>"]
    recon_pyr_requires_all_keys[of pyramid_64 Residual_highpass "[]" "One_level (Level 0)" All_bands 1
      "zero_image 1 1 64 64" "[Level 0]" c "pyramid_64\<lparr>pyr_size := sz\<rparr>"]
    constructed_pyramid_64 m e nr f
  show ?thesis by blast
qed

lemma spatial_has_shape:
  "has_shape (B, C, H, W) t \<Longrightarrow> 0 < B \<Longrightarrow> 0 < C \<Longrightarrow> 0 < H \<Longrightarrow> spatial t = (H, W)"
proof -
  assume a: "has_shape (B, C, H, W) t" "0 < B" "0 < C" "0 < H"
  then obtain b bs where d: "dat t = b # bs" by (cases "dat t") (auto simp: has_shape_iff)
  with a obtain X Xs where b: "b = X # Xs" by (cases b) (auto simp: has_shape_iff)
  from a d b have "rect (H, W) X" by (auto simp: has_shape_iff)
  then have "shape2 X = (H, W)" using a(4) by (simp add: shape2_rect)
  with d b show ?thesis by (simp add: spatial_def)
qed

lemma cat1_ok:
  assumes "ts \<noteq> []" "0 < B" "0 < H"
    and "\<forall>t\<in>set ts. \<exists>C. 0 < C \<and> has_shape (B, C, H, W) t"
  shows "cat1 ts = Inr (Tensor (foldr promote (map dtype_of ts) Float) (cat_rows B ts))"
proof -
  from assms(1,4) obtain C0 where c0: "0 < C0" "has_shape (B, C0, H, W) (hd ts)"
    by (cases ts) auto
  have sp: "spatial (hd ts) = (H, W)" using c0(2) assms(2) c0(1) assms(3) by (rule spatial_has_shape)
  have len: "length (dat (hd ts)) = B" using c0(2) by (simp add: has_shape_iff)
  have "list_all (\<lambda>t. length (dat t) = length (dat (hd ts)) \<and>
            list_all (list_all (rect (spatial (hd ts)))) (dat t)) ts"
    unfolding sp len using assms(4) by (auto simp: list_all_iff has_shape_iff)
  then show ?thesis using assms(1) len by (simp add: cat1_def cat_rows_def)
qed

lemma has_shape_cat_rows:
  assumes "\<forall>t\<in>set ts. has_shape (B, 1, H, W) t"
  shows "has_shape (B, length ts, H, W) (Tensor dt (cat_rows B ts))"
proof -
  have "length (concat (map (\<lambda>t. dat t ! b) ts)) = length ts" if "b < B" for b
  proof -
    have "\<forall>t\<in>set ts. length (dat t ! b) = 1" using assms that by (auto simp: has_shape_iff)
    then have "map length (map (\<lambda>t. dat t ! b) ts) = map (\<lambda>t. 1) ts" by simp
    then show ?thesis by (simp add: length_concat sum_list_triv del: map_map)
  qed
  moreover have "rect (H, W) X" if "b < B" "X \<in> set (concat (map (\<lambda>t. dat t ! b) ts))" for b X
    using assms that by (auto simp: has_shape_iff) (metis nth_mem)
  ultimately show ?thesis by (auto simp: has_shape_iff cat_rows_def)
qed

lemma foldr_promote_Float:
  "\<forall>t\<in>set ts. dtype_of t = Float \<Longrightarrow> foldr promote (map dtype_of ts) Float = Float"
  by (induction ts) (simp_all add: promote_def)

lemma split_residuals:
  assumes "od_keys c = k0 # mid @ [k1]"
  obtains h bs l where "c = (k0, h) # bs @ [(k1, l)]" "od_keys bs = mid"
proof -
  from assms obtain kv0 r where c: "c = kv0 # r" "fst kv0 = k0" "map fst r = mid @ [k1]"
    by (auto simp: od_keys_def map_eq_Cons_conv)
  from c(3) obtain bs kvl where r: "r = bs @ [kvl]" "map fst bs = mid" "fst kvl = k1"
    by (auto simp: map_eq_append_conv map_eq_Cons_conv)
  show ?thesis
    by (rule that[of "snd kv0" bs "snd kvl"]) (use c r in \<open>auto simp: od_keys_def\<close>)
qed

lemma convert_pyr_to_tensor_ok:
  assumes nds: "\<not> downsample p" and keys: "od_keys c = Residual_highpass # mid @ [Residual_lowpass]"
    and mid: "\<forall>k\<in>set mid. \<not> is_residual k"
    and sh: "\<forall>(k, t)\<in>set c. has_shape (B, 1, H, W) t" and pos: "0 < B" "0 < H"
  shows "\<exists>dt. convert_pyr_to_tensor p c = Inr (Tensor dt (cat_rows B (map snd c))) \<and>
           ((\<forall>(k, t)\<in>set c. dtype_of t = Float) \<longrightarrow> dt = Float)"
proof -
  from keys obtain h bs l where c: "c = (Residual_highpass, h) # bs @ [(Residual_lowpass, l)]"
    and bk: "od_keys bs = mid" by (rule split_residuals)
  have nres: "\<forall>kv\<in>set bs. \<not> is_residual (fst kv)"
  proof
    fix kv assume "kv \<in> set bs"
    then have "fst kv \<in> set mid" using bk by (auto simp: od_keys_def)
    with mid show "\<not> is_residual (fst kv)" by simp
  qed
  have f1: "filter (\<lambda>kv. is_residual (fst kv)) c = [(Residual_highpass, h), (Residual_lowpass, l)]"
    using nres by (simp add: c is_residual_def)
  have f2: "filter (\<lambda>kv. \<not> is_residual (fst kv)) c = bs"
    using nres by (simp add: c is_residual_def)
  let ?bands = "map snd bs"
  have shh: "has_shape (B, 1, H, W) h" "has_shape (B, 1, H, W) l"
    and shb: "\<forall>t\<in>set ?bands. has_shape (B, 1, H, W) t"
    using sh by (auto simp: c)
  show ?thesis
  proof (cases "bs = []")
    case True
    have "cat1 [h, l] = Inr (Tensor (foldr promote (map dtype_of [h, l]) Float) (cat_rows B [h, l]))"
      by (rule cat1_ok[where B=B and H=H and W=W]) (use shh pos in \<open>auto intro: exI[of _ 1]\<close>)
    moreover have "map snd c = [h, l]" using c True by simp
    moreover have "filter (\<lambda>kv. \<not> is_residual (fst kv)) c = []" using f2 True by simp
    ultimately show ?thesis
      using nds by (auto simp: convert_pyr_to_tensor_def f1 Let_def promote_def)
  next
    case False
    let ?cb = "Tensor (foldr promote (map dtype_of ?bands) Float) (cat_rows B ?bands)"
    have cb: "cat1 ?bands = Inr ?cb"
      by (rule cat1_ok[where B=B and H=H and W=W]) (use shb pos False in \<open>auto intro: exI[of _ 1]\<close>)
    have shcb: "has_shape (B, length ?bands, H, W) ?cb"
      using shb by (rule has_shape_cat_rows)
    have all: "cat1 [h, ?cb, l] = Inr (Tensor (foldr promote (map dtype_of [h, ?cb, l]) Float) (cat_rows B [h, ?cb, l]))"
    proof (rule cat1_ok[where B=B and H=H and W=W])
      show "\<forall>t\<in>set [h, ?cb, l]. \<exists>C. 0 < C \<and> has_shape (B, C, H, W) t"
        using shh shcb False by (auto intro: exI[of _ 1] exI[of _ "length bs"])
    qed (use pos in auto)
    have rows: "cat_rows B [h, ?cb, l] = cat_rows B (map snd c)"
      by (simp add: cat_rows_def c)
    have fl: "foldr promote (map dtype_of [h, ?cb, l]) Float = Float"
      if "\<forall>(k, t)\<in>set c. dtype_of t = Float"
    proof -
      from that have "\<forall>t\<in>set ?bands. dtype_of t = Float" "dtype_of h = Float" "dtype_of l = Float"
        by (auto simp: c)
      then show ?thesis using foldr_promote_Float[of ?bands] by (simp add: promote_def)
    qed
    have "convert_pyr_to_tensor p c = cat1 [h, ?cb, l]"
      using nds False by (simp add: convert_pyr_to_tensor_def f1 f2 Let_def cb)
    with all rows fl show ?thesis by auto
  qed
qed

lemma od_set_fresh: "k \<notin> set (od_keys d) \<Longrightarrow> od_set k v d = d @ [(k, v)]"
  by (simp add: od_set_def)

lemma tensor_to_pyr_loop_ok:
  "distinct ks \<Longrightarrow> set ks \<inter> set (od_keys acc) = {} \<Longrightarrow>
   (\<forall>j<length ks. \<forall>b\<in>set (dat t). i + j < length b) \<Longrightarrow>
   tensor_to_pyr_loop t ks i acc =
     Inr (acc @ map (\<lambda>j. (ks ! j, Tensor (dtype_of t) (map (\<lambda>b. [b ! (i + j)]) (dat t)))) [0..<length ks])"
proof (induction ks arbitrary: i acc)
  case Nil
  then show ?case by simp
next
  case (Cons k ks)
  let ?v = "Tensor (dtype_of t) (map (\<lambda>b. [b ! i]) (dat t))"
  have sel: "select_channel t i = Inr ?v"
    using Cons.prems(3) by (auto simp: select_channel_def list_all_iff)
  have fresh: "od_set k ?v acc = acc @ [(k, ?v)]"
    using Cons.prems(2) by (simp add: od_set_fresh)
  have "tensor_to_pyr_loop t ks (Suc i) (acc @ [(k, ?v)]) =
     Inr ((acc @ [(k, ?v)]) @ map (\<lambda>j. (ks ! j, Tensor (dtype_of t) (map (\<lambda>b. [b ! (Suc i + j)]) (dat t)))) [0..<length ks])"
  proof (rule Cons.IH)
    show "distinct ks" using Cons.prems(1) by simp
    show "set ks \<inter> set (od_keys (acc @ [(k, ?v)])) = {}"
      using Cons.prems(1,2) by (auto simp: od_keys_def)
    show "\<forall>j<length ks. \<forall>b\<in>set (dat t). Suc i + j < length b"
      using Cons.prems(3) by fastforce
  qed
  moreover have "map (\<lambda>j. ((k # ks) ! j, Tensor (dtype_of t) (map (\<lambda>b. [b ! (i + j)]) (dat t)))) [0..<length (k # ks)]
      = (k, ?v) # map (\<lambda>j. (ks ! j, Tensor (dtype_of t) (map (\<lambda>b. [b ! (Suc i + j)]) (dat t)))) [0..<length ks]"
    by (simp add: upt_conv_Cons map_Suc_upt[symmetric] del: upt_Suc)
  ultimately show ?case by (simp add: sel fresh)
qed

lemma select_cat_rows:
  assumes sh: "\<forall>t\<in>set ts. has_shape (B, 1, H, W) t" and j: "j < length ts"
  shows "map (\<lambda>b. [b ! j]) (cat_rows B ts) = dat (ts ! j)"
proof -
  have tj: "has_shape (B, 1, H, W) (ts ! j)" using sh j by simp
  have "[concat (map (\<lambda>t. dat t ! b) ts) ! j] = dat (ts ! j) ! b" if "b < B" for b
  proof -
    have single: "\<forall>t\<in>set ts. \<exists>X. dat t ! b = [X]"
    proof
      fix t assume "t \<in> set ts"
      with sh that have "length (dat t ! b) = 1" by (auto simp: has_shape_iff)
      then show "\<exists>X. dat t ! b = [X]" by (cases "dat t ! b") auto
    qed
    then have "concat (map (\<lambda>t. dat t ! b) ts) = map (\<lambda>t. hd (dat t ! b)) ts"
      by (induction ts) auto
    moreover obtain X where "dat (ts ! j) ! b = [X]" using single j by (metis nth_mem)
    ultimately show ?thesis using j by simp
  qed
  then have "map (\<lambda>b. [b ! j]) (cat_rows B ts) = map (\<lambda>b. dat (ts ! j) ! b) [0..<B]"
    by (simp add: cat_rows_def)
  also have "\<dots> = dat (ts ! j)"
  proof -
    have "length (dat (ts ! j)) = B" using tj by (simp add: has_shape_iff)
    then show ?thesis by (metis map_nth)
  qed
  finally show ?thesis .
qed

lemma level_dims_no_downsample [simp]: "level_dims False d i = d"
  by (induction i) simp_all

lemma dtype_real_part [simp]: "dtype_of (real_part t) = Float"
  by (simp add: real_part_def)

lemma forward_full:
  assumes cp: "constructed p" and x: "has_shape (B, C, image_shape p) x"
    and sv: "scales_valid p (effective_scales p scs)"
  shows "\<exists>c sz. forward p x scs = Inr (c, p\<lparr>pyr_size := sz\<rparr>) \<and>
           (\<forall>(k, t)\<in>set c. has_shape (B, C, key_dims p k) t \<and> (\<not> is_complex p \<longrightarrow> dtype_of t = Float))"
  by (rule forward_inv[OF constructed_wf[OF cp] x sv, of "\<lambda>_. True"])
     (simp_all add: hi_of_def lo_of_def band_of_def store_band_def)

lemma od_keys_Cons: "od_keys (kv # d) = fst kv # od_keys d"
  by (simp add: od_keys_def)

lemma scales_valid_iff:
  "scales_valid p scs \<longleftrightarrow>
   \<not> (scale_ints scs \<noteq> [] \<and> \<not> (Max (set (scale_ints scs)) < num_scales p \<and> 0 \<le> Min (set (scale_ints scs))))"
  by (cases "scale_ints scs = []") (auto simp: scales_valid_def list_all_iff)

lemma forward_valid: "forward p x scs = Inr r \<Longrightarrow> scales_valid p (effective_scales p scs)"
  unfolding scales_valid_iff forward_def Let_def effective_scales_def
  by (auto split: if_splits)

lemma all_keys_split:
  "\<exists>mid. all_keys p = Residual_highpass # mid @ [Residual_lowpass] \<and> (\<forall>k\<in>set mid. \<not> is_residual k)"
  by (auto simp: all_keys_def is_residual_def)

lemma distinct_all_keys: "distinct (all_keys p)"
proof -
  have "distinct (concat (map (\<lambda>i. map (Band i) [0..<num_orientations p]) is))" if "distinct is" for "is"
    using that by (induction "is") (auto simp: distinct_map inj_on_def)
  then show ?thesis by (auto simp: all_keys_def)
qed

lemma size_table_after_full:
  assumes "pyr_size p = [] \<or> od_keys (pyr_size p) = all_keys p"
  shows "add_keys (od_keys (pyr_size p)) (all_keys p) = all_keys p"
  using assms
proof
  assume "pyr_size p = []"
  moreover have "add_keys [] (all_keys p) = [] @ all_keys p"
    by (rule add_keys_fresh) (simp_all add: distinct_all_keys)
  ultimately show ?thesis by (simp add: od_keys_Nil)
next
  assume "od_keys (pyr_size p) = all_keys p"
  then show ?thesis by (simp add: add_keys_present)
qed

lemma roundtrip_single_channel:
  assumes nds: "\<not> downsample p" and keys: "od_keys c = all_keys p"
    and tab: "od_keys (pyr_size p) = all_keys p"
    and sh: "\<forall>(k, t)\<in>set c. has_shape (B, 1, H, W) t" and pos: "0 < B" "0 < H"
  shows "\<exists>dt. roundtrip p c = Inr (map (\<lambda>kv. (fst kv, Tensor dt (dat (snd kv)))) c) \<and>
           ((\<forall>(k, t)\<in>set c. dtype_of t = Float) \<longrightarrow> dt = Float)"
proof -
  from all_keys_split obtain mid where ak: "all_keys p = Residual_highpass # mid @ [Residual_lowpass]"
    and mid: "\<forall>k\<in>set mid. \<not> is_residual k" by blast
  let ?ts = "map snd c"
  from convert_pyr_to_tensor_ok[OF nds keys[unfolded ak] mid sh pos]
  obtain dt where conv: "convert_pyr_to_tensor p c = Inr (Tensor dt (cat_rows B ?ts))"
    and dt: "(\<forall>(k, t)\<in>set c. dtype_of t = Float) \<longrightarrow> dt = Float" by blast
  let ?T = "Tensor dt (cat_rows B ?ts)"
  have shts: "\<forall>t\<in>set ?ts. has_shape (B, 1, H, W) t" using sh by auto
  have shT: "has_shape (B, length ?ts, H, W) ?T" using shts by (rule has_shape_cat_rows)
  have lk: "length (all_keys p) = length c" using keys by (metis length_map od_keys_def)
  have "tensor_to_pyr_loop ?T (all_keys p) 0 [] =
     Inr ([] @ map (\<lambda>j. (all_keys p ! j, Tensor (dtype_of ?T) (map (\<lambda>b. [b ! (0 + j)]) (dat ?T)))) [0..<length (all_keys p)])"
  proof (rule tensor_to_pyr_loop_ok)
    show "distinct (all_keys p)" by (rule distinct_all_keys)
    show "set (all_keys p) \<inter> set (od_keys []) = {}" by (simp add: od_keys_Nil)
    show "\<forall>j<length (all_keys p). \<forall>b\<in>set (dat ?T). 0 + j < length b"
      using shT lk by (auto simp: has_shape_iff)
  qed
  also have "map (\<lambda>j. (all_keys p ! j, Tensor (dtype_of ?T) (map (\<lambda>b. [b ! (0 + j)]) (dat ?T)))) [0..<length (all_keys p)]
      = map (\<lambda>j. (fst (c ! j), Tensor dt (dat (snd (c ! j))))) [0..<length c]"
  proof -
    have "(all_keys p ! j, Tensor (dtype_of ?T) (map (\<lambda>b. [b ! (0 + j)]) (dat ?T)))
          = (fst (c ! j), Tensor dt (dat (snd (c ! j))))" if "j < length c" for j
    proof -
      have "all_keys p ! j = fst (c ! j)" using keys[symmetric] that by (simp add: od_keys_def)
      moreover have "map (\<lambda>b. [b ! j]) (cat_rows B ?ts) = dat (?ts ! j)"
        using shts that by (intro select_cat_rows) simp_all
      ultimately show ?thesis using that by simp
    qed
    then show ?thesis unfolding lk by simp
  qed
  also have "\<dots> = map (\<lambda>kv. (fst kv, Tensor dt (dat (snd kv)))) c"
    by (rule nth_equalityI) simp_all
  finally have "convert_tensor_to_pyr p ?T = Inr (map (\<lambda>kv. (fst kv, Tensor dt (dat (snd kv)))) c)"
    by (simp add: convert_tensor_to_pyr_def tab)
  with conv dt show ?thesis by (auto simp: roundtrip_def)
qed

text \<open>
  Claim C8, as amended. For a pyramid without downsampling whose size table is empty or
  lists the keys in the order of a full \<^verbatim>\<open>forward\<close> call, and for an image with one
  channel and at least one batch entry: converting the coefficients of a full
  \<^verbatim>\<open>forward\<close> call to one tensor and back gives the same keys in the same order with
  the same values, and for a pyramid with real coefficients the very same mapping. (For
  complex coefficients the two residuals come back with the complex dtype that
  \<^verbatim>\<open>torch.cat\<close> gives the stacked tensor.)
\<close>

theorem convert_roundtrip:
  "constructed p \<and> \<not> downsample p \<and> (pyr_size p = [] \<or> od_keys (pyr_size p) = all_keys p) \<and>
   0 < B \<and> has_shape (B, 1, image_shape p) x \<and> requests_all p scs \<and>
   forward p x scs = Inr (c, p') \<longrightarrow>
     (\<exists>c'. roundtrip p' c = Inr c' \<and> od_keys c' = od_keys c \<and>
        map (\<lambda>kv. dat (snd kv)) c' = map (\<lambda>kv. dat (snd kv)) c \<and>
        (\<not> is_complex p \<longrightarrow> c' = c))"
proof
  assume a: "constructed p \<and> \<not> downsample p \<and> (pyr_size p = [] \<or> od_keys (pyr_size p) = all_keys p) \<and>
   0 < B \<and> has_shape (B, 1, image_shape p) x \<and> requests_all p scs \<and>
   forward p x scs = Inr (c, p')"
  then have cp: "constructed p" and nds: "\<not> downsample p" and f: "forward p x scs = Inr (c, p')"
    and ra: "requests_all p scs" and x: "has_shape (B, 1, image_shape p) x" and B: "0 < B"
    and tab: "pyr_size p = [] \<or> od_keys (pyr_size p) = all_keys p"
    by simp_all
  obtain H W where shp: "image_shape p = (H, W)" by (cases "image_shape p")
  have H: "0 < H" using constructed_wf[OF cp] shp by (simp add: wf_pyramid_def)
  have keys: "od_keys c = all_keys p"
    using forward_keys(1)[OF f] requested_keys_all[OF cp ra] by simp
  have tab': "od_keys (pyr_size p') = all_keys p"
    using forward_keys(2)[OF f] requested_keys_all[OF cp ra] size_table_after_full[OF tab] by simp
  have sv: "scales_valid p (effective_scales p scs)"
    using f by (rule forward_valid)
  from forward_full[OF cp x sv] f
  have sh: "\<forall>(k, t)\<in>set c. has_shape (B, 1, key_dims p k) t \<and> (\<not> is_complex p \<longrightarrow> dtype_of t = Float)"
    by auto
  then have sh1: "\<forall>(k, t)\<in>set c. has_shape (B, 1, H, W) t"
    using nds shp by (auto simp: key_dims_def)
  from forward_state[OF f] obtain sz where p': "p' = p\<lparr>pyr_size := sz\<rparr>" by blast
  have "\<exists>dt. roundtrip p' c = Inr (map (\<lambda>kv. (fst kv, Tensor dt (dat (snd kv)))) c) \<and>
           ((\<forall>(k, t)\<in>set c. dtype_of t = Float) \<longrightarrow> dt = Float)"
  proof (rule roundtrip_single_channel[where B=B and H=H and W=W])
    show "\<not> downsample p'" using nds by (simp add: p')
    show "od_keys c = all_keys p'" using keys by (simp add: p')
    show "od_keys (pyr_size p') = all_keys p'" using tab' by (simp add: p')
  qed (use sh1 B H in auto)
  then obtain dt where r: "roundtrip p' c = Inr (map (\<lambda>kv. (fst kv, Tensor dt (dat (snd kv)))) c)"
    and dt: "(\<forall>(k, t)\<in>set c. dtype_of t = Float) \<Longrightarrow> dt = Float" by blast
  let ?c' = "map (\<lambda>kv. (fst kv, Tensor dt (dat (snd kv)))) c"
  have "od_keys ?c' = od_keys c" by (simp add: od_keys_def comp_def)
  moreover have "map (\<lambda>kv. dat (snd kv)) ?c' = map (\<lambda>kv. dat (snd kv)) c" by (simp add: comp_def)
  moreover have "?c' = c" if "\<not> is_complex p"
  proof -
    from that sh have fl: "\<forall>(k, t)\<in>set c. dtype_of t = Float" by auto
    then have "dt = Float" by (rule dt)
    have "(fst kv, Tensor dt (dat (snd kv))) = kv" if "kv \<in> set c" for kv
    proof -
      from fl that have "dtype_of (snd kv) = Float" by (cases kv) auto
      with \<open>dt = Float\<close> have "Tensor dt (dat (snd kv)) = Tensor (dtype_of (snd kv)) (dat (snd kv))" by simp
      then show ?thesis by (simp add: prod_eq_iff)
    qed
    then show ?thesis by (simp add: map_idI)
  qed
  ultimately show "\<exists>c'. roundtrip p' c = Inr c' \<and> od_keys c' = od_keys c \<and>
        map (\<lambda>kv. dat (snd kv)) c' = map (\<lambda>kv. dat (snd kv)) c \<and> (\<not> is_complex p \<longrightarrow> c' = c)"
    using r by blast
qed

lemma init_pyramid_4:
  "init zero_tools (4, 4) Auto 3 1 False False False = Inr (pyramid_4, [])"
  by (simp add: init_def choose_num_scales_def max_ht_4 clamp_order_def clamp_twidth_def
      init_warnings_def pyramid_4_def)

lemma constructed_pyramid_4: "constructed pyramid_4"
  using init_pyramid_4 by (rule constructed_init)

lemma pyramid_4_fields:
  "image_shape pyramid_4 = (4, 4)" "num_scales pyramid_4 = 0" "num_orientations pyramid_4 = 4"
  "\<not> downsample pyramid_4" "pyr_size pyramid_4 = []" "\<not> is_complex pyramid_4"
  by (simp_all add: pyramid_4_def build_def Let_def)

theorem convert_roundtrip_witness:
  "constructed pyramid_4 \<and> \<not> downsample pyramid_4 \<and> pyr_size pyramid_4 = [] \<and>
   has_shape (1, 1, image_shape pyramid_4) (zero_image 1 1 4 4) \<and> requests_all pyramid_4 [] \<and>
   (\<exists>c p'. forward pyramid_4 (zero_image 1 1 4 4) [] = Inr (c, p') \<and> roundtrip p' c = Inr c)"
proof -
  have h: "has_shape (1, 1, image_shape pyramid_4) (zero_image 1 1 4 4)"
    by (simp add: pyramid_4_fields has_shape_zero_image)
  have ra: "requests_all pyramid_4 []" by (simp add: requests_all_def)
  from forward_total[OF constructed_pyramid_4 h scales_valid_default[OF constructed_pyramid_4]]
  obtain c sz where f: "forward pyramid_4 (zero_image 1 1 4 4) [] = Inr (c, pyramid_4\<lparr>pyr_size := sz\<rparr>)"
    by blast
  from convert_roundtrip[of pyramid_4 1 "zero_image 1 1 4 4" "[]" c "pyramid_4\<lparr>pyr_size := sz\<rparr>"]
    constructed_pyramid_4 h ra f
  have "roundtrip (pyramid_4\<lparr>pyr_size := sz\<rparr>) c = Inr c"
    by (auto simp: pyramid_4_fields)
  with constructed_pyramid_4 h ra f show ?thesis by (auto simp: pyramid_4_fields)
qed

text \<open>Against claim C8 as stated: an image with two channels. The stacked tensor has four
  channels, and each of the two keys gets one of them back.\<close>

theorem convert_roundtrip_counterexample:
  "init zero_tools (4, 4) Auto 3 1 False False False = Inr (pyramid_4, []) \<and>
   \<not> downsample pyramid_4 \<and>
   ebind (forward pyramid_4 (zero_image 1 2 4 4) [])
     (\<lambda>r. ebind (roundtrip (snd r) (fst r)) (\<lambda>c'. Inr (c' = fst r))) = Inr False"
proof -
  have h: "has_shape (1, 2, image_shape pyramid_4) (zero_image 1 2 4 4)"
    by (simp add: pyramid_4_fields has_shape_zero_image)
  have ra: "requests_all pyramid_4 []" by (simp add: requests_all_def)
  from forward_total[OF constructed_pyramid_4 h scales_valid_default[OF constructed_pyramid_4]]
  obtain c sz where f: "forward pyramid_4 (zero_image 1 2 4 4) [] = Inr (c, pyramid_4\<lparr>pyr_size := sz\<rparr>)"
    and sh: "\<forall>(k, t)\<in>set c. has_shape (1, 2, key_dims pyramid_4 k) t"
    by blast
  let ?p = "pyramid_4\<lparr>pyr_size := sz\<rparr>"
  have ak: "all_keys pyramid_4 = [Residual_highpass, Residual_lowpass]"
    by (simp add: all_keys_def pyramid_4_fields)
  have keys: "od_keys c = [Residual_highpass, Residual_lowpass]"
    using forward_keys(1)[OF f] requested_keys_all[OF constructed_pyramid_4 ra] ak by simp
  have tab: "od_keys (pyr_size ?p) = [Residual_highpass, Residual_lowpass]"
    using forward_keys(2)[OF f] requested_keys_all[OF constructed_pyramid_4 ra] ak
    by (simp add: pyramid_4_fields od_keys_Nil)
  from keys obtain h l where c: "c = [(Residual_highpass, h), (Residual_lowpass, l)]"
    by (auto simp: od_keys_def map_eq_Cons_conv)
  have shh: "has_shape (1, 2, 4, 4) h" "has_shape (1, 2, 4, 4) l"
    using sh by (simp_all add: c key_dims_def pyramid_4_fields)
  have cat: "cat1 [h, l] = Inr (Tensor (foldr promote (map dtype_of [h, l]) Float) (cat_rows 1 [h, l]))"
    by (rule cat1_ok[where B=1 and H=4 and W=4]) (use shh in \<open>auto intro: exI[of _ 2]\<close>)
  let ?T = "Tensor (foldr promote (map dtype_of [h, l]) Float) (cat_rows 1 [h, l])"
  have conv: "convert_pyr_to_tensor ?p c = Inr ?T"
    using cat by (simp add: convert_pyr_to_tensor_def c is_residual_def Let_def pyramid_4_fields)
  obtain h0 h1 where dh: "dat h = [ [h0, h1] ]"
  proof -
    from shh(1) obtain b where "dat h = [b]" "length b = 2"
      by (cases "dat h") (auto simp: has_shape_iff)
    then show ?thesis using that by (cases b; cases "tl b") auto
  qed
  obtain l0 l1 where dl: "dat l = [ [l0, l1] ]"
  proof -
    from shh(2) obtain b where "dat l = [b]" "length b = 2"
      by (cases "dat l") (auto simp: has_shape_iff)
    then show ?thesis using that by (cases b; cases "tl b") auto
  qed
  have rows: "cat_rows (Suc 0) [h, l] = [ [h0, h1, l0, l1] ]"
    by (simp add: cat_rows_def dh dl)
  have bk: "convert_tensor_to_pyr ?p ?T =
      Inr [(Residual_highpass, Tensor (dtype_of ?T) [ [h0] ]), (Residual_lowpass, Tensor (dtype_of ?T) [ [h1] ])]"
  proof -
    from tab have tab2: "od_keys sz = [Residual_highpass, Residual_lowpass]" by simp
    show ?thesis
      by (simp add: convert_tensor_to_pyr_def tab2 rows select_channel_def od_set_def od_keys_Nil od_keys_Cons)
  qed
  have "Tensor (dtype_of ?T) [ [h0] ] \<noteq> h"
  proof
    assume "Tensor (dtype_of ?T) [ [h0] ] = h"
    then have "dat h = [ [h0] ]" by (metis tensor.sel(2))
    with dh show False by simp
  qed
  then have "roundtrip ?p c = Inr [(Residual_highpass, Tensor (dtype_of ?T) [ [h0] ]), (Residual_lowpass, Tensor (dtype_of ?T) [ [h1] ])]
      \<and> [(Residual_highpass, Tensor (dtype_of ?T) [ [h0] ]), (Residual_lowpass, Tensor (dtype_of ?T) [ [h1] ])] \<noteq> c"
    using conv bk by (simp add: roundtrip_def c)
  then show ?thesis using f init_pyramid_4 by (simp add: pyramid_4_fields)
qed

end
